theory Spec2Isabelle
  imports Main "HOL-Library.Sublist" "HOL-Library.Char_ord" "HOL-Library.List_Lexorder"
    "HOL-Library.Multiset"
begin

section \<open>Values, errors and host strings\<close>

text \<open>
  The engine of powerstrings lives in \<^verbatim>\<open>Transform.ts\<close> (the catalog \<^verbatim>\<open>PSTransformers\<close>,
  \<^verbatim>\<open>applyTransformer\<close>, \<^verbatim>\<open>encodeATL\<close>, \<^verbatim>\<open>decodeATL\<close>) and in the computed property
  \<^verbatim>\<open>outputValue\<close> of the main view.  The catalog modelled here is the latest revision of
  \<^verbatim>\<open>Transform.ts\<close>, the one with the wildcard separator and the index list of
  \<^verbatim>\<open>slice_array\<close>.

  A JavaScript string is modelled as the list of its code units, restricted to code units
  below 256 (the type \<open>char\<close>).  A value that flows through a chain is a string, an
  array of values, or \<^verbatim>\<open>undefined\<close> (which \<^verbatim>\<open>pullAt\<close> can put into an array).
\<close>

datatype val = Undefined | Str string | Arr "val list"

text \<open>
  One constructor per \<^verbatim>\<open>throw\<close> of the source, and two for what the host raises:
  \<open>TypeError\<close> (a method called on \<^verbatim>\<open>undefined\<close> or on a value that lacks it) and
  \<open>SyntaxError\<close> (\<^verbatim>\<open>JSON.parse\<close>, \<^verbatim>\<open>new RegExp\<close>).
\<close>

datatype error =
    NotStringNorArray
  | ArrayTransformerOnString
  | ParsedNotArray
  | IdOrArgsMalformed
  | NonStringArgument
  | TransformerNotFound
  | TypeError
  | SyntaxError

text \<open>\<^verbatim>\<open>Func(v, ...t.Arguments)\<close>: a parameter beyond the supplied arguments is \<^verbatim>\<open>undefined\<close>.\<close>

definition arg :: "string list \<Rightarrow> nat \<Rightarrow> string option" where
  "arg args i = (if i < length args then Some (args ! i) else None)"

subsection \<open>\<^verbatim>\<open>parseInt(s, 10)\<close>\<close>

text \<open>
  ECMAScript \<^verbatim>\<open>parseInt\<close> with radix 10: skip leading white space, read an optional sign,
  read the longest run of decimal digits; no digit gives \<^verbatim>\<open>NaN\<close> (\<open>None\<close>).  The result is
  the mathematical integer; a JavaScript Number holds it exactly while its magnitude is at
  most \<open>2^53\<close>.
\<close>

definition isWhiteSpace :: "char \<Rightarrow> bool" where
  "isWhiteSpace c = (c \<in> set [CHR 0x09, CHR 0x0A, CHR 0x0B, CHR 0x0C, CHR 0x0D, CHR 0x20, CHR 0xA0])"

definition isDigit :: "char \<Rightarrow> bool" where
  "isDigit c = (c \<in> set ''0123456789'')"

definition digitValue :: "char \<Rightarrow> nat" where
  "digitValue c = of_char c - 48"

definition mathInt :: "string \<Rightarrow> nat" where
  "mathInt Z = foldl (\<lambda>n c. 10 * n + digitValue c) 0 Z"

definition parseInt :: "string \<Rightarrow> int option" where
  "parseInt inputString =
     (let S = dropWhile isWhiteSpace inputString;
          sign = (if S \<noteq> [] \<and> hd S = CHR ''-'' then - 1 else 1);
          S' = (if S \<noteq> [] \<and> (hd S = CHR ''+'' \<or> hd S = CHR ''-'') then tl S else S);
          Z = takeWhile isDigit S'
      in if Z = [] then None else Some (sign * int (mathInt Z)))"

subsection \<open>\<^verbatim>\<open>slice\<close> of strings and arrays\<close>

text \<open>
  \<^verbatim>\<open>Array.prototype.slice(start, end)\<close> and \<^verbatim>\<open>String.prototype.slice(start, end)\<close> called with
  two Numbers: \<^verbatim>\<open>NaN\<close> converts to 0, a negative bound counts from the end, every bound is
  clamped to \<open>[0, len]\<close>.
\<close>

definition toIntegerOrInfinity :: "int option \<Rightarrow> int" where
  "toIntegerOrInfinity n = (case n of None \<Rightarrow> 0 | Some k \<Rightarrow> k)"

definition relativeIndex :: "int \<Rightarrow> nat \<Rightarrow> nat" where
  "relativeIndex rel len = (if rel < 0 then nat (max (int len + rel) 0) else min (nat rel) len)"

definition slice :: "'a list \<Rightarrow> int option \<Rightarrow> int option \<Rightarrow> 'a list" where
  "slice v start end =
     (let len = length v;
          k = relativeIndex (toIntegerOrInfinity start) len;
          final = relativeIndex (toIntegerOrInfinity end) len
      in take (final - k) (drop k v))"

subsection \<open>\<^verbatim>\<open>includes\<close>, \<^verbatim>\<open>split\<close> and \<^verbatim>\<open>replaceAll\<close> with a string pattern\<close>

fun str_includes :: "string \<Rightarrow> string \<Rightarrow> bool" where
  "str_includes [] pat = (pat = [])"
| "str_includes (c # cs) pat = (prefix pat (c # cs) \<or> str_includes cs pat)"

text \<open>
  \<^verbatim>\<open>S.split(sep)\<close> with a string separator: the occurrences of \<open>sep\<close> are found from left
  to right and do not overlap; \<open>cur\<close> is the part read since the last separator.  The empty
  separator splits into code units.
\<close>

function str_split_from :: "string \<Rightarrow> string \<Rightarrow> string \<Rightarrow> string list" where
  "str_split_from sep cur [] = [cur]"
| "str_split_from sep cur (c # cs) =
     (if sep \<noteq> [] \<and> prefix sep (c # cs)
      then cur # str_split_from sep [] (drop (length sep) (c # cs))
      else str_split_from sep (cur @ [c]) cs)"
  by pat_completeness auto
termination
  by (relation "measure (\<lambda>(sep, cur, s). length s)") (auto simp: neq_Nil_conv)

definition str_split :: "string \<Rightarrow> string \<Rightarrow> string list" where
  "str_split S sep = (if sep = [] then map (\<lambda>c. [c]) S else str_split_from sep [] S)"

text \<open>
  \<^verbatim>\<open>GetSubstitution\<close>: the replacement text of \<^verbatim>\<open>replace\<close> and \<^verbatim>\<open>replaceAll\<close>, where
  \<^verbatim>\<open>$$\<close> is a dollar, \<^verbatim>\<open>$&\<close> the match, \<^verbatim>\<open>$`\<close> and \<^verbatim>\<open>$'\<close> the text before and after the
  match, and \<^verbatim>\<open>$n\<close>, \<^verbatim>\<open>$nn\<close> the capture of that number when the pattern has one.
\<close>

definition capture :: "string list \<Rightarrow> string \<Rightarrow> string" where
  "capture caps digits =
     (let index = mathInt digits
      in if 1 \<le> index \<and> index \<le> length caps then caps ! (index - 1) else CHR ''$'' # digits)"

fun getSubstitution :: "string \<Rightarrow> string \<Rightarrow> string \<Rightarrow> string list \<Rightarrow> string \<Rightarrow> string" where
  "getSubstitution m b a caps [] = []"
| "getSubstitution m b a caps [c] = [c]"
| "getSubstitution m b a caps (c # d # r) =
     (if c \<noteq> CHR ''$'' then c # getSubstitution m b a caps (d # r)
      else if d = CHR ''$'' then CHR ''$'' # getSubstitution m b a caps r
      else if d = CHR ''&'' then m @ getSubstitution m b a caps r
      else if d = CHR 0x60 then b @ getSubstitution m b a caps r
      else if d = CHR 0x27 then a @ getSubstitution m b a caps r
      else if isDigit d then
        (case r of
           [] \<Rightarrow> capture caps [d]
         | e # r' \<Rightarrow>
             if isDigit e \<and> mathInt [d, e] \<le> length caps
             then capture caps [d, e] @ getSubstitution m b a caps r'
             else capture caps [d] @ getSubstitution m b a caps (e # r'))
      else c # getSubstitution m b a caps (d # r))"

text \<open>
  \<^verbatim>\<open>S.replaceAll(pat, rep)\<close> with a string pattern; \<open>passed\<close> is the part of \<open>S\<close> already
  passed.  The empty pattern matches before every code unit and at the end.
\<close>

function replaceAll_from :: "string \<Rightarrow> string \<Rightarrow> string \<Rightarrow> string \<Rightarrow> string" where
  "replaceAll_from pat rep passed [] =
     (if pat = [] then getSubstitution [] passed [] [] rep else [])"
| "replaceAll_from pat rep passed (c # cs) =
     (if pat = []
      then getSubstitution [] passed (c # cs) [] rep @ c # replaceAll_from pat rep (passed @ [c]) cs
      else if prefix pat (c # cs)
      then getSubstitution pat passed (drop (length pat) (c # cs)) [] rep
             @ replaceAll_from pat rep (passed @ pat) (drop (length pat) (c # cs))
      else c # replaceAll_from pat rep (passed @ [c]) cs)"
  by pat_completeness auto
termination
  by (relation "measure (\<lambda>(pat, rep, passed, s). length s)") (auto simp: neq_Nil_conv)

definition str_replaceAll :: "string \<Rightarrow> string \<Rightarrow> string \<Rightarrow> string" where
  "str_replaceAll S pat rep = replaceAll_from pat rep [] S"

text \<open>\<^verbatim>\<open>S.replaceAll(/\r\n|\n/g, '')\<close>: every CR LF pair and every other LF is removed.\<close>

fun removeLineBreaks :: "string \<Rightarrow> string" where
  "removeLineBreaks [] = []"
| "removeLineBreaks [c] = (if c = CHR 0x0A then [] else [c])"
| "removeLineBreaks (c # d # cs) =
     (if c = CHR 0x0D \<and> d = CHR 0x0A then removeLineBreaks cs
      else if c = CHR 0x0A then removeLineBreaks (d # cs)
      else c # removeLineBreaks (d # cs))"

subsection \<open>lodash \<^verbatim>\<open>cloneDeep\<close> and \<^verbatim>\<open>pullAt\<close>\<close>

text \<open>
  \<^verbatim>\<open>cloneDeep\<close> gives a fresh, structurally equal value.  \<^verbatim>\<open>pullAt(array, indexes)\<close>
  removes the elements at the indexes from \<open>array\<close> in place and returns the array of the
  removed elements: element \<open>k\<close> of the result is \<^verbatim>\<open>array[indexes[k]]\<close> as it was before the
  removal, \<^verbatim>\<open>undefined\<close> when that index is \<^verbatim>\<open>NaN\<close>, negative or past the end.  The model
  returns the pair of the removed elements and the array after the removal.
\<close>

definition cloneDeep :: "'a \<Rightarrow> 'a" where
  "cloneDeep v = v"

definition baseGet :: "val list \<Rightarrow> int option \<Rightarrow> val" where
  "baseGet array index =
     (case index of
        None \<Rightarrow> Undefined
      | Some n \<Rightarrow> if 0 \<le> n \<and> nat n < length array then array ! nat n else Undefined)"

definition basePullAt :: "val list \<Rightarrow> int option list \<Rightarrow> val list" where
  "basePullAt array indexes =
     map snd (filter (\<lambda>(i, x). Some (int i) \<notin> set indexes) (enumerate 0 array))"

definition pullAt :: "val list \<Rightarrow> int option list \<Rightarrow> val list \<times> val list" where
  "pullAt array indexes = (map (baseGet array) indexes, basePullAt array indexes)"

subsection \<open>The wildcard patterns as regular expressions\<close>

text \<open>
  The two bodies that accept the wildcard \<^verbatim>\<open>%w%\<close> build the source text of a regular
  expression and hand it to \<^verbatim>\<open>new RegExp\<close>.  \<open>RegExp\<close> reads the source texts that this
  construction can produce: a code unit that is not a syntax character, a syntax character
  after a backslash, the lazy non-capturing wildcard \<^verbatim>\<open>[^]*?\<close> and the greedy capturing
  wildcard \<^verbatim>\<open>([^]*)\<close>.  Any other source text is answered with \<open>None\<close>.
\<close>

datatype rtoken = Lit char | LazyAny | GreedyAnyGroup

definition isSyntaxCharacter :: "char \<Rightarrow> bool" where
  "isSyntaxCharacter c = (c \<in> set (''.*+?^${}()|[]'' @ [CHR 0x5C]))"

text \<open>\<^verbatim>\<open>s.replace(/[.*+?^${}()|[\]\\]/g, '\\$&')\<close>: a backslash before every syntax character.\<close>

definition escapeRegExp :: "string \<Rightarrow> string" where
  "escapeRegExp s = concat (map (\<lambda>c. if isSyntaxCharacter c then [CHR 0x5C, c] else [c]) s)"

function RegExp :: "string \<Rightarrow> rtoken list option" where
  "RegExp [] = Some []"
| "RegExp (c # cs) =
     (if c = CHR 0x5C then
        (case cs of
           [] \<Rightarrow> None
         | d # ds \<Rightarrow> if isSyntaxCharacter d then map_option ((#) (Lit d)) (RegExp ds) else None)
      else if prefix ''[^]*?'' (c # cs) then map_option ((#) LazyAny) (RegExp (drop 5 (c # cs)))
      else if prefix ''([^]*)'' (c # cs)
      then map_option ((#) GreedyAnyGroup) (RegExp (drop 6 (c # cs)))
      else if isSyntaxCharacter c then None
      else map_option ((#) (Lit c)) (RegExp cs))"
  by pat_completeness auto
termination
  by (relation "measure length") auto

text \<open>
  A match of the token sequence at the start of \<open>s\<close>: the number of code units matched
  and the captures, in the order a backtracking matcher finds them.  The lazy wildcard
  tries the shortest span first, the greedy one the longest.
\<close>

fun matchAt :: "rtoken list \<Rightarrow> string \<Rightarrow> (nat \<times> string list) option" where
  "matchAt [] s = Some (0, [])"
| "matchAt (Lit c # ts) [] = None"
| "matchAt (Lit c # ts) (x # xs) =
     (if x = c then map_option (\<lambda>(n, caps). (Suc n, caps)) (matchAt ts xs) else None)"
| "matchAt (LazyAny # ts) [] = matchAt ts []"
| "matchAt (LazyAny # ts) (x # xs) =
     (case matchAt ts (x # xs) of
        Some r \<Rightarrow> Some r
      | None \<Rightarrow> map_option (\<lambda>(n, caps). (Suc n, caps)) (matchAt (LazyAny # ts) xs))"
| "matchAt (GreedyAnyGroup # ts) [] = map_option (\<lambda>(n, caps). (n, [] # caps)) (matchAt ts [])"
| "matchAt (GreedyAnyGroup # ts) (x # xs) =
     (case matchAt (GreedyAnyGroup # ts) xs of
        Some (n, cap # caps) \<Rightarrow> Some (Suc n, (x # cap) # caps)
      | _ \<Rightarrow> map_option (\<lambda>(n, caps). (n, [] # caps)) (matchAt ts (x # xs)))"

text \<open>
  \<^verbatim>\<open>S.split(regexp)\<close> without a limit.  \<open>p\<close> is the end of the last separator, \<open>q\<close> the
  position tried; a match at \<open>q\<close> that ends at \<open>p\<close> is skipped; the captures of a separator
  are spliced into the result.
\<close>

function regex_split_loop :: "rtoken list \<Rightarrow> string \<Rightarrow> nat \<Rightarrow> nat \<Rightarrow> string list" where
  "regex_split_loop re S p q =
     (if q < length S then
        (case matchAt re (drop q S) of
           None \<Rightarrow> regex_split_loop re S p (q + 1)
         | Some (n, caps) \<Rightarrow>
             (let e = min (q + n) (length S)
              in if e = p then regex_split_loop re S p (q + 1)
                 else take (q - p) (drop p S) # caps @ regex_split_loop re S e e))
      else [drop p S])"
  by pat_completeness auto
termination
  by (relation "measure (\<lambda>(re, S, p, q). 2 * (length S - q) + (if p = q then 0 else 1))")
    (auto split: if_splits)

definition regex_split :: "rtoken list \<Rightarrow> string \<Rightarrow> string list" where
  "regex_split re S =
     (if S = [] then (case matchAt re [] of Some z \<Rightarrow> [] | None \<Rightarrow> [S])
      else regex_split_loop re S 0 0)"

text \<open>
  \<^verbatim>\<open>S.replace(regexp, rep)\<close> with the global flag: the matches are searched from
  \<open>lastIndex\<close> on, an empty match moves \<open>lastIndex\<close> one further, and every match is
  replaced by its substitution.
\<close>

function regex_replace_loop :: "rtoken list \<Rightarrow> string \<Rightarrow> string \<Rightarrow> nat \<Rightarrow> nat \<Rightarrow> string" where
  "regex_replace_loop re rep S lastIndex nextSourcePosition =
     (if length S < lastIndex then drop nextSourcePosition S
      else
        (case matchAt re (drop lastIndex S) of
           None \<Rightarrow> regex_replace_loop re rep S (lastIndex + 1) nextSourcePosition
         | Some (n, caps) \<Rightarrow>
             take (lastIndex - nextSourcePosition) (drop nextSourcePosition S)
             @ getSubstitution (take n (drop lastIndex S)) (take lastIndex S)
                 (drop (lastIndex + n) S) caps rep
             @ regex_replace_loop re rep S (if n = 0 then lastIndex + 1 else lastIndex + n)
                 (lastIndex + n)))"
  by pat_completeness auto
termination
  by (relation "measure (\<lambda>(re, rep, S, lastIndex, nsp). Suc (length S) - lastIndex)") auto

definition regex_replace :: "rtoken list \<Rightarrow> string \<Rightarrow> string \<Rightarrow> string" where
  "regex_replace re S rep = regex_replace_loop re rep S 0 0"

subsection \<open>\<^verbatim>\<open>trim\<close>, case mapping, \<^verbatim>\<open>join\<close> and \<^verbatim>\<open>sort\<close>\<close>

definition trim :: "string \<Rightarrow> string" where
  "trim s = rev (dropWhile isWhiteSpace (rev (dropWhile isWhiteSpace s)))"

text \<open>
  The case mappings of the code units below 256.  The upper case of \<^verbatim>\<open>0xDF\<close> is
  \<^verbatim>\<open>"SS"\<close>; the upper cases of \<^verbatim>\<open>0xB5\<close> and \<^verbatim>\<open>0xFF\<close> are code units above 255, which the
  string type here does not hold, and those two are left as they are.
\<close>

definition toLowerCase :: "string \<Rightarrow> string" where
  "toLowerCase s =
     map (\<lambda>c. let n = of_char c :: nat
               in if (65 \<le> n \<and> n \<le> 90) \<or> (192 \<le> n \<and> n \<le> 222 \<and> n \<noteq> 215)
                  then char_of (n + 32) else c) s"

definition toUpperCase :: "string \<Rightarrow> string" where
  "toUpperCase s =
     concat (map (\<lambda>c. let n = of_char c :: nat
                       in if (97 \<le> n \<and> n \<le> 122) \<or> (224 \<le> n \<and> n \<le> 254 \<and> n \<noteq> 247)
                          then [char_of (n - 32)]
                          else if n = 223 then ''SS'' else [c]) s)"

text \<open>
  \<^verbatim>\<open>ToString\<close> of a value and \<^verbatim>\<open>array.join(sep)\<close>: an array prints as its elements joined
  by a comma, and \<^verbatim>\<open>join\<close> prints an \<^verbatim>\<open>undefined\<close> element as the empty string.
\<close>

fun toString :: "val \<Rightarrow> string"
  and join :: "val list \<Rightarrow> string \<Rightarrow> string" where
  "toString Undefined = ''undefined''"
| "toString (Str s) = s"
| "toString (Arr xs) = join xs '',''"
| "join [] sep = []"
| "join (Undefined # xs) sep = (if xs = [] then [] else sep @ join xs sep)"
| "join (Str s # xs) sep = (if xs = [] then s else s @ sep @ join xs sep)"
| "join (Arr ys # xs) sep =
     (if xs = [] then toString (Arr ys) else toString (Arr ys) @ sep @ join xs sep)"

text \<open>
  \<^verbatim>\<open>array.sort(comparefn)\<close>: the \<^verbatim>\<open>undefined\<close> elements go to the end without being
  compared; the others are ordered by the comparator, and the sort is stable.  For a
  consistent comparator this fixes the result, which the insertion below computes.
\<close>

fun insertBy :: "(val \<Rightarrow> val \<Rightarrow> int) \<Rightarrow> val \<Rightarrow> val list \<Rightarrow> val list" where
  "insertBy comparefn x [] = [x]"
| "insertBy comparefn x (y # ys) =
     (if comparefn x y \<le> 0 then x # y # ys else y # insertBy comparefn x ys)"

definition array_sort :: "(val \<Rightarrow> val \<Rightarrow> int) \<Rightarrow> val list \<Rightarrow> val list" where
  "array_sort comparefn xs =
     foldr (insertBy comparefn) (filter (\<lambda>x. x \<noteq> Undefined) xs) []
     @ filter (\<lambda>x. x = Undefined) xs"

text \<open>The default comparator: the order of the \<^verbatim>\<open>ToString\<close> texts by code units.\<close>

definition defaultCompare :: "val \<Rightarrow> val \<Rightarrow> int" where
  "defaultCompare x y =
     (if toString x < toString y then - 1 else if toString y < toString x then 1 else 0)"

text \<open>\<^verbatim>\<open><\<close> and \<^verbatim>\<open>>\<close> on Numbers: false as soon as one side is \<^verbatim>\<open>NaN\<close>.\<close>

definition numberLess :: "int option \<Rightarrow> int option \<Rightarrow> bool" where
  "numberLess a b = (case (a, b) of (Some x, Some y) \<Rightarrow> x < y | _ \<Rightarrow> False)"

section \<open>The catalog\<close>

datatype kind = KString | KArray

record PSArg =
  ArgName :: string
  Placeholder :: string

record PSTransformer =
  ID :: string
  Target :: kind
  Return :: kind
  Name :: string
  Description :: string
  Icon :: string
  Func :: "val \<Rightarrow> string list \<Rightarrow> error + val"
  Args :: "PSArg list"

text \<open>
  Each \<^verbatim>\<open>Func\<close> takes the value and the argument list of the invocation.  A body that
  calls a method on \<^verbatim>\<open>undefined\<close> (a missing argument), or a method that its value does not
  have, raises \<open>TypeError\<close>.
\<close>

definition split_Func :: "val \<Rightarrow> string list \<Rightarrow> error + val" where
  "split_Func v args =
     (case (v, arg args 0) of
        (Str s, Some sep) \<Rightarrow>
          if str_includes sep ''%w%'' then
            (let sepEscaped = escapeRegExp sep;
                 sepRegex = str_replaceAll sepEscaped ''%w%'' ''[^]*?''
             in case RegExp sepRegex of
                  None \<Rightarrow> Inl SyntaxError
                | Some re \<Rightarrow> Inr (Arr (map Str (regex_split re s))))
          else Inr (Arr (map Str (str_split s sep)))
      | _ \<Rightarrow> Inl TypeError)"

definition replace_Func :: "val \<Rightarrow> string list \<Rightarrow> error + val" where
  "replace_Func v args =
     (case (v, arg args 0) of
        (Str s, Some pattern) \<Rightarrow>
          (let replacement = (case arg args 1 of None \<Rightarrow> ''undefined'' | Some r \<Rightarrow> r)
           in if str_includes pattern ''%w%'' then
                (let patEscaped = escapeRegExp pattern;
                     patRegex = str_replaceAll patEscaped ''%w%'' ''([^]*)''
                 in case RegExp patRegex of
                      None \<Rightarrow> Inl SyntaxError
                    | Some re \<Rightarrow> Inr (Str (regex_replace re s replacement)))
              else Inr (Str (str_replaceAll s pattern replacement)))
      | _ \<Rightarrow> Inl TypeError)"

definition trim_Func :: "val \<Rightarrow> string list \<Rightarrow> error + val" where
  "trim_Func v args = (case v of Str s \<Rightarrow> Inr (Str (trim s)) | _ \<Rightarrow> Inl TypeError)"

definition lower_case_Func :: "val \<Rightarrow> string list \<Rightarrow> error + val" where
  "lower_case_Func v args = (case v of Str s \<Rightarrow> Inr (Str (toLowerCase s)) | _ \<Rightarrow> Inl TypeError)"

definition upper_case_Func :: "val \<Rightarrow> string list \<Rightarrow> error + val" where
  "upper_case_Func v args = (case v of Str s \<Rightarrow> Inr (Str (toUpperCase s)) | _ \<Rightarrow> Inl TypeError)"

text \<open>\<^verbatim>\<open>parseInt\<close> of an argument; a missing one reads as the text \<^verbatim>\<open>undefined\<close>, not a number.\<close>

definition parseIntArg :: "string list \<Rightarrow> nat \<Rightarrow> int option" where
  "parseIntArg args i = (case arg args i of None \<Rightarrow> None | Some a \<Rightarrow> parseInt a)"

definition slice_Func :: "val \<Rightarrow> string list \<Rightarrow> error + val" where
  "slice_Func v args =
     (let s = parseIntArg args 0;
          e = parseIntArg args 1
      in case v of
           Str str \<Rightarrow> Inr (Str (slice str s e))
         | Arr a \<Rightarrow> Inr (Arr (slice a s e))
         | Undefined \<Rightarrow> Inl TypeError)"

definition normalizeIndexes :: "string \<Rightarrow> string" where
  "normalizeIndexes indexes = removeLineBreaks (str_replaceAll indexes '' '' '''')"

definition slice_array_Func :: "val \<Rightarrow> string list \<Rightarrow> error + val" where
  "slice_array_Func v args =
     (case (v, arg args 0) of
        (Arr a, Some indexes) \<Rightarrow>
          (let normalized = normalizeIndexes indexes
           in if str_includes normalized ''-'' then
                (let commaSpt = str_split normalized ''-''
                 in if length commaSpt \<noteq> 2 then Inr (Arr a)
                    else (let s = parseInt (commaSpt ! 0);
                              e = parseInt (commaSpt ! 1)
                          in Inr (Arr (slice a s e))))
              else if str_includes normalized '','' then
                (let commaSpt = str_split normalized '','';
                     indexes = map (\<lambda>idx. parseInt idx) commaSpt;
                     ret = cloneDeep a
                 in Inr (Arr (fst (pullAt ret indexes))))
              else
                (let idx = parseInt normalized
                 in if idx = None then Inr (Arr a)
                    else (let ret = cloneDeep a in Inr (Arr (fst (pullAt ret [idx]))))))
      | _ \<Rightarrow> Inl TypeError)"

definition reverse_Func :: "val \<Rightarrow> string list \<Rightarrow> error + val" where
  "reverse_Func v args =
     (case v of Arr a \<Rightarrow> (let ret = cloneDeep a in Inr (Arr (rev ret))) | _ \<Rightarrow> Inl TypeError)"

text \<open>The comparator of the numeric branch of \<^verbatim>\<open>sort\<close>.\<close>

definition numericCompare :: "val \<Rightarrow> val \<Rightarrow> int" where
  "numericCompare a b =
     (if numberLess (parseInt (toString a)) (parseInt (toString b)) then - 1
      else if numberLess (parseInt (toString b)) (parseInt (toString a)) then 1
      else 0)"

definition sort_Func :: "val \<Rightarrow> string list \<Rightarrow> error + val" where
  "sort_Func v args =
     (case v of
        Arr a \<Rightarrow>
          (let ret = cloneDeep a;
               isAllInt = list_all (\<lambda>v. parseInt (toString v) \<noteq> None) ret
           in if \<not> isAllInt then Inr (Arr (array_sort defaultCompare ret))
              else Inr (Arr (array_sort numericCompare ret)))
      | _ \<Rightarrow> Inl TypeError)"

definition join_Func :: "val \<Rightarrow> string list \<Rightarrow> error + val" where
  "join_Func v args =
     (case v of
        Arr a \<Rightarrow> Inr (Str (join a (case arg args 0 of None \<Rightarrow> '','' | Some sep \<Rightarrow> sep)))
      | _ \<Rightarrow> Inl TypeError)"

definition PSTransformers :: "PSTransformer list" where
  "PSTransformers =
     [\<lparr>ID = ''split'', Target = KString, Return = KArray, Name = ''Split'',
       Description = ''Split the string at the ocurrencies of the given <b>Separator</b>.'',
       Icon = ''cut'', Func = split_Func,
       Args = [\<lparr>ArgName = ''Separator'', Placeholder = ''Use %w% as wildcard''\<rparr>]\<rparr>,
      \<lparr>ID = ''replace'', Target = KString, Return = KString, Name = ''Replace'',
       Description =
         ''Replace all ocurrencies of <b>Pattern</b> with the <b>Replacement</b> content'',
       Icon = ''find_replace'', Func = replace_Func,
       Args = [\<lparr>ArgName = ''Pattern'', Placeholder = ''Use %w% as wildcard''\<rparr>,
               \<lparr>ArgName = ''Replacement'',
                Placeholder = ''Use $& for matched and $n (n = %w% index, starting from 1) for wildcarded substrings''\<rparr>]\<rparr>,
      \<lparr>ID = ''trim'', Target = KString, Return = KString, Name = ''Trim'',
       Description = ''Remove leading and trailing spaces'',
       Icon = ''space_bar'', Func = trim_Func, Args = []\<rparr>,
      \<lparr>ID = ''lower_case'', Target = KString, Return = KString, Name = ''Lower Case'',
       Description = ''Convert the string to lower case'',
       Icon = ''arrow_downward'', Func = lower_case_Func, Args = []\<rparr>,
      \<lparr>ID = ''upper_case'', Target = KString, Return = KString, Name = ''Upper Case'',
       Description = ''Convert the string to upper case'',
       Icon = ''arrow_upward'', Func = upper_case_Func, Args = []\<rparr>,
      \<lparr>ID = ''slice'', Target = KString, Return = KString, Name = ''Slice'',
       Description =
         ''Slice a section of the string, between <b>Start</b> and <b>End</b> indexes.'',
       Icon = ''carpenter'', Func = slice_Func,
       Args = [\<lparr>ArgName = ''Start'', Placeholder = ''''\<rparr>,
               \<lparr>ArgName = ''End (exclusive)'', Placeholder = ''''\<rparr>]\<rparr>,
      \<lparr>ID = ''slice_array'', Target = KArray, Return = KArray, Name = ''Slice Array'',
       Description = ''Slice a section of the array, at the given <b>Indexes</b>.'',
       Icon = ''carpenter'', Func = slice_array_Func,
       Args = [\<lparr>ArgName = ''Indexes to slice (use , for lists and - for intervals)'',
                Placeholder = ''List e.g.: 0,3,5'' @ [CHR 0x0A] @ ''Interval e.g.: 0-5''\<rparr>]\<rparr>,
      \<lparr>ID = ''reverse'', Target = KArray, Return = KArray, Name = ''Reverse'',
       Description = ''Reverse the array.'',
       Icon = ''restart_alt'', Func = reverse_Func, Args = []\<rparr>,
      \<lparr>ID = ''sort'', Target = KArray, Return = KArray, Name = ''Sort'',
       Description = ''Sort the array.'',
       Icon = ''sort'', Func = sort_Func, Args = []\<rparr>,
      \<lparr>ID = ''join'', Target = KArray, Return = KString, Name = ''Join'',
       Description =
         ''Adds all the elements of the array into a string, separated by the specified <b>Separator</b>.'',
       Icon = ''join'', Func = join_Func,
       Args = [\<lparr>ArgName = ''Separator'', Placeholder = ''''\<rparr>]\<rparr>]"

record PSTransformerWithArguments =
  Transformer :: PSTransformer
  Arguments :: "string list"

section \<open>\<^verbatim>\<open>applyTransformer\<close> and the chain\<close>

text \<open>
  \<^verbatim>\<open>v.map((vm) => applyTransformer(vm, t))\<close> is \<open>mapApply\<close>: the elements are transformed
  from left to right, and the first one that throws ends the whole call with its error.
\<close>

fun applyTransformer :: "val \<Rightarrow> PSTransformerWithArguments \<Rightarrow> error + val"
  and mapApply :: "val list \<Rightarrow> PSTransformerWithArguments \<Rightarrow> error + val list" where
  "applyTransformer Undefined t = Inl NotStringNorArray"
| "applyTransformer (Str s) t =
     (if Target (Transformer t) = KArray then Inl ArrayTransformerOnString
      else Func (Transformer t) (Str s) (Arguments t))"
| "applyTransformer (Arr v) t =
     (if Target (Transformer t) = KString then map_sum id Arr (mapApply v t)
      else if 0 < length v \<and> (case v of Str s # rest \<Rightarrow> True | _ \<Rightarrow> False)
      then Func (Transformer t) (Arr v) (Arguments t)
      else map_sum id Arr (mapApply v t))"
| "mapApply [] t = Inr []"
| "mapApply (vm # rest) t =
     (case applyTransformer vm t of
        Inl e \<Rightarrow> Inl e
      | Inr r \<Rightarrow> (case mapApply rest t of Inl e \<Rightarrow> Inl e | Inr rs \<Rightarrow> Inr (r # rs)))"

text \<open>
  \<^verbatim>\<open>outputValue\<close>: the empty input returns at once; otherwise the applied transformers are
  run in order, and a step that throws raises an alert (recorded here with the name of the
  transformer and the error) and leaves \<open>v\<close> as it was.  The result is the final value and
  the alerts in the order they were raised.
\<close>

fun forEach_apply :: "val \<Rightarrow> PSTransformerWithArguments list \<Rightarrow> val \<times> (string \<times> error) list" where
  "forEach_apply v [] = (v, [])"
| "forEach_apply v (t # ts) =
     (case applyTransformer v t of
        Inr v' \<Rightarrow> forEach_apply v' ts
      | Inl e \<Rightarrow> (let (r, alerts) = forEach_apply v ts in (r, (Name (Transformer t), e) # alerts)))"

definition outputValue :: "string \<Rightarrow> PSTransformerWithArguments list \<Rightarrow> val \<times> (string \<times> error) list" where
  "outputValue InputValue AppliedTransformers =
     (let v = Str InputValue
      in if length InputValue = 0 then (Str '''', [])
         else forEach_apply v AppliedTransformers)"

section \<open>The exchange token: \<^verbatim>\<open>encodeATL\<close> and \<^verbatim>\<open>decodeATL\<close>\<close>

subsection \<open>\<^verbatim>\<open>JSON.stringify\<close> and \<^verbatim>\<open>JSON.parse\<close>\<close>

text \<open>
  A parsed JSON text.  A number keeps the text of its literal (the decoder only asks
  whether a value is a string or an array); an object keeps its members in the order of
  the text, and the last member of a name is the property of that name.
\<close>

datatype json =
    JNull
  | JBool bool
  | JNumber string
  | JString string
  | JArray "json list"
  | JObject "(string \<times> json) list"

definition hexDigit :: "nat \<Rightarrow> char" where
  "hexDigit n = ''0123456789abcdef'' ! n"

definition hexValue :: "char \<Rightarrow> nat option" where
  "hexValue c =
     (if isDigit c then Some (of_char c - 48)
      else if c \<in> set ''abcdef'' then Some (of_char c - 87)
      else if c \<in> set ''ABCDEF'' then Some (of_char c - 55)
      else None)"

text \<open>\<^verbatim>\<open>QuoteJSONString\<close>, one code unit at a time.\<close>

definition quoteChar :: "char \<Rightarrow> string" where
  "quoteChar c =
     (if c = CHR 0x08 then [CHR 0x5C, CHR ''b'']
      else if c = CHR 0x09 then [CHR 0x5C, CHR ''t'']
      else if c = CHR 0x0A then [CHR 0x5C, CHR ''n'']
      else if c = CHR 0x0C then [CHR 0x5C, CHR ''f'']
      else if c = CHR 0x0D then [CHR 0x5C, CHR ''r'']
      else if c = CHR 0x22 then [CHR 0x5C, CHR 0x22]
      else if c = CHR 0x5C then [CHR 0x5C, CHR 0x5C]
      else if (of_char c :: nat) < 32
      then [CHR 0x5C, CHR ''u'', CHR ''0'', CHR ''0'',
            hexDigit (of_char c div 16), hexDigit (of_char c mod 16)]
      else [c])"

definition quoteJSONString :: "string \<Rightarrow> string" where
  "quoteJSONString s = CHR 0x22 # concat (map quoteChar s) @ [CHR 0x22]"

fun JSON_stringify :: "json \<Rightarrow> string"
  and stringify_elements :: "json list \<Rightarrow> string"
  and stringify_members :: "(string \<times> json) list \<Rightarrow> string" where
  "JSON_stringify JNull = ''null''"
| "JSON_stringify (JBool b) = (if b then ''true'' else ''false'')"
| "JSON_stringify (JNumber n) = n"
| "JSON_stringify (JString s) = quoteJSONString s"
| "JSON_stringify (JArray xs) = ''['' @ stringify_elements xs @ '']''"
| "JSON_stringify (JObject ms) = ''{'' @ stringify_members ms @ ''}''"
| "stringify_elements [] = []"
| "stringify_elements (x # xs) =
     (if xs = [] then JSON_stringify x else JSON_stringify x @ '','' @ stringify_elements xs)"
| "stringify_members [] = []"
| "stringify_members ((k, x) # ms) =
     (if ms = [] then quoteJSONString k @ '':'' @ JSON_stringify x
      else quoteJSONString k @ '':'' @ JSON_stringify x @ '','' @ stringify_members ms)"

text \<open>
  \<^verbatim>\<open>JSON.parse\<close>, by recursive descent over the JSON grammar.  \<open>None\<close> is the
  \<^verbatim>\<open>SyntaxError\<close>.  An escape \<^verbatim>\<open>\uXXXX\<close> above \<^verbatim>\<open>00FF\<close> names a code unit that the string
  type here does not hold; such a text is answered with \<open>None\<close> as well.  The first
  argument of the three mutually recursive parsers bounds the number of nested calls;
  \<^verbatim>\<open>JSON.parse\<close> starts with more than twice the length of the text, and no larger bound
  changes the result (lemma \<open>JSON_parse_any_fuel\<close> below).
\<close>

definition isJSONWhiteSpace :: "char \<Rightarrow> bool" where
  "isJSONWhiteSpace c = (c \<in> set [CHR 0x09, CHR 0x0A, CHR 0x0D, CHR 0x20])"

definition skip_ws :: "string \<Rightarrow> string" where
  "skip_ws s = dropWhile isJSONWhiteSpace s"

definition unescape :: "char \<Rightarrow> char option" where
  "unescape e =
     (if e = CHR 0x22 then Some (CHR 0x22)
      else if e = CHR 0x5C then Some (CHR 0x5C)
      else if e = CHR ''/'' then Some (CHR ''/'')
      else if e = CHR ''b'' then Some (CHR 0x08)
      else if e = CHR ''f'' then Some (CHR 0x0C)
      else if e = CHR ''n'' then Some (CHR 0x0A)
      else if e = CHR ''r'' then Some (CHR 0x0D)
      else if e = CHR ''t'' then Some (CHR 0x09)
      else None)"

definition hex4 :: "char \<Rightarrow> char \<Rightarrow> char \<Rightarrow> char \<Rightarrow> nat option" where
  "hex4 a b c d =
     (case (hexValue a, hexValue b, hexValue c, hexValue d) of
        (Some x, Some y, Some z, Some w) \<Rightarrow> Some (((x * 16 + y) * 16 + z) * 16 + w)
      | _ \<Rightarrow> None)"

definition consChar :: "char \<Rightarrow> (string \<times> string) option \<Rightarrow> (string \<times> string) option" where
  "consChar c r = map_option (\<lambda>(s, rest). (c # s, rest)) r"

text \<open>The code units of a string literal after its opening quote, up to the closing one.\<close>

fun parse_chars :: "string \<Rightarrow> (string \<times> string) option" where
  "parse_chars [] = None"
| "parse_chars (c # cs) =
     (if c = CHR 0x22 then Some ([], cs)
      else if c = CHR 0x5C then
        (case cs of
           [] \<Rightarrow> None
         | e # r \<Rightarrow>
             if e = CHR ''u'' then
               (case r of
                  h1 # h2 # h3 # h4 # r' \<Rightarrow>
                    (case hex4 h1 h2 h3 h4 of
                       None \<Rightarrow> None
                     | Some n \<Rightarrow> if n < 256 then consChar (char_of n) (parse_chars r') else None)
                | _ \<Rightarrow> None)
             else
               (case unescape e of
                  None \<Rightarrow> None
                | Some d \<Rightarrow> consChar d (parse_chars r)))
      else if (of_char c :: nat) < 32 then None
      else consChar c (parse_chars cs))"

text \<open>
  A number literal: an optional minus, \<^verbatim>\<open>0\<close> or a digit sequence without a leading zero,
  an optional fraction, an optional exponent.  The result is the literal and the rest.
\<close>

definition parse_digits :: "string \<Rightarrow> (string \<times> string) option" where
  "parse_digits s =
     (if takeWhile isDigit s = [] then None else Some (takeWhile isDigit s, dropWhile isDigit s))"

definition parse_fraction :: "string \<Rightarrow> (string \<times> string) option" where
  "parse_fraction s =
     (case s of
        [] \<Rightarrow> Some ([], s)
      | c # r \<Rightarrow>
          if c = CHR ''.'' then map_option (\<lambda>(ds, rest). (c # ds, rest)) (parse_digits r)
          else Some ([], s))"

definition parse_exponent :: "string \<Rightarrow> (string \<times> string) option" where
  "parse_exponent s =
     (case s of
        [] \<Rightarrow> Some ([], s)
      | c # r \<Rightarrow>
          if c = CHR ''e'' \<or> c = CHR ''E'' then
            (case r of
               [] \<Rightarrow> None
             | d # r' \<Rightarrow>
                 if d = CHR ''+'' \<or> d = CHR ''-''
                 then map_option (\<lambda>(ds, rest). (c # d # ds, rest)) (parse_digits r')
                 else map_option (\<lambda>(ds, rest). (c # ds, rest)) (parse_digits r))
          else Some ([], s))"

definition parse_int_part :: "string \<Rightarrow> (string \<times> string) option" where
  "parse_int_part s =
     (case s of
        [] \<Rightarrow> None
      | c # r \<Rightarrow> if c = CHR ''0'' then Some ([c], r) else parse_digits s)"

definition parse_number :: "string \<Rightarrow> (string \<times> string) option" where
  "parse_number s =
     (let minus = (if s \<noteq> [] \<and> hd s = CHR ''-'' then ''-'' else '''');
          s1 = drop (length minus) s
      in case parse_int_part s1 of
           None \<Rightarrow> None
         | Some (ip, s2) \<Rightarrow>
             (case parse_fraction s2 of
                None \<Rightarrow> None
              | Some (fp, s3) \<Rightarrow>
                  (case parse_exponent s3 of
                     None \<Rightarrow> None
                   | Some (ep, s4) \<Rightarrow> Some (minus @ ip @ fp @ ep, s4))))"

fun parse_value :: "nat \<Rightarrow> string \<Rightarrow> (json \<times> string) option"
  and parse_elements :: "nat \<Rightarrow> string \<Rightarrow> (json list \<times> string) option"
  and parse_members :: "nat \<Rightarrow> string \<Rightarrow> ((string \<times> json) list \<times> string) option" where
  "parse_value 0 s = None"
| "parse_value (Suc n) s =
     (case skip_ws s of
        [] \<Rightarrow> None
      | c # cs \<Rightarrow>
          if c = CHR 0x22 then map_option (\<lambda>(str, r). (JString str, r)) (parse_chars cs)
          else if c = CHR ''['' then
            (if skip_ws cs \<noteq> [] \<and> hd (skip_ws cs) = CHR '']''
             then Some (JArray [], tl (skip_ws cs))
             else map_option (\<lambda>(xs, r). (JArray xs, r)) (parse_elements n cs))
          else if c = CHR ''{'' then
            (if skip_ws cs \<noteq> [] \<and> hd (skip_ws cs) = CHR ''}''
             then Some (JObject [], tl (skip_ws cs))
             else map_option (\<lambda>(ms, r). (JObject ms, r)) (parse_members n cs))
          else if prefix ''true'' (c # cs) then Some (JBool True, drop 4 (c # cs))
          else if prefix ''false'' (c # cs) then Some (JBool False, drop 5 (c # cs))
          else if prefix ''null'' (c # cs) then Some (JNull, drop 4 (c # cs))
          else map_option (\<lambda>(lit, r). (JNumber lit, r)) (parse_number (c # cs)))"
| "parse_elements 0 s = None"
| "parse_elements (Suc n) s =
     (case parse_value n s of
        None \<Rightarrow> None
      | Some (x, r) \<Rightarrow>
          (case skip_ws r of
             [] \<Rightarrow> None
           | c # r' \<Rightarrow>
               if c = CHR '','' then map_option (\<lambda>(xs, r''). (x # xs, r'')) (parse_elements n r')
               else if c = CHR '']'' then Some ([x], r')
               else None))"
| "parse_members 0 s = None"
| "parse_members (Suc n) s =
     (case skip_ws s of
        [] \<Rightarrow> None
      | q # cs \<Rightarrow>
          if q \<noteq> CHR 0x22 then None
          else
            (case parse_chars cs of
               None \<Rightarrow> None
             | Some (k, r) \<Rightarrow>
                 (case skip_ws r of
                    [] \<Rightarrow> None
                  | colon # r1 \<Rightarrow>
                      if colon \<noteq> CHR '':'' then None
                      else
                        (case parse_value n r1 of
                           None \<Rightarrow> None
                         | Some (x, r2) \<Rightarrow>
                             (case skip_ws r2 of
                                [] \<Rightarrow> None
                              | c # r3 \<Rightarrow>
                                  if c = CHR '','' then
                                    map_option (\<lambda>(ms, r4). ((k, x) # ms, r4)) (parse_members n r3)
                                  else if c = CHR ''}'' then Some ([(k, x)], r3)
                                  else None)))))"

definition JSON_parse :: "string \<Rightarrow> json option" where
  "JSON_parse text =
     (case parse_value (2 * length text + 1) text of
        None \<Rightarrow> None
      | Some (j, rest) \<Rightarrow> if skip_ws rest = [] then Some j else None)"

subsection \<open>The codec\<close>

text \<open>
  \<^verbatim>\<open>t?.i\<close> and \<^verbatim>\<open>t?.a\<close> on a parsed value: the member of that name of an object,
  \<^verbatim>\<open>undefined\<close> (\<open>None\<close>) when the object has none and on every value that is not an object
  (\<^verbatim>\<open>null\<close>, booleans, numbers, strings and arrays have no property \<^verbatim>\<open>i\<close> or \<^verbatim>\<open>a\<close>).
\<close>

definition property :: "json \<Rightarrow> string \<Rightarrow> json option" where
  "property t name = (case t of JObject ms \<Rightarrow> map_of (rev ms) name | _ \<Rightarrow> None)"

definition isString :: "json \<Rightarrow> bool" where
  "isString ta = (case ta of JString s \<Rightarrow> True | _ \<Rightarrow> False)"

definition stringOf :: "json \<Rightarrow> string" where
  "stringOf ta = (case ta of JString s \<Rightarrow> s | _ \<Rightarrow> [])"

definition encodeATL :: "PSTransformerWithArguments list \<Rightarrow> string" where
  "encodeATL ts =
     (let ret = map (\<lambda>t. JObject [(''i'', JString (ID (Transformer t))),
                                  (''a'', JArray (map JString (Arguments t)))]) ts
      in JSON_stringify (JArray ret))"

text \<open>The \<^verbatim>\<open>forEach\<close> of \<^verbatim>\<open>decodeATL\<close>: the first record that throws ends the decoding.\<close>

fun decode_records :: "json list \<Rightarrow> error + PSTransformerWithArguments list" where
  "decode_records [] = Inr []"
| "decode_records (t # rest) =
     (case (property t ''i'', property t ''a'') of
        (Some i, Some (JArray a)) \<Rightarrow>
          if \<not> list_all isString a then Inl NonStringArgument
          else
            (case find (\<lambda>pst. JString (ID pst) = i) PSTransformers of
               None \<Rightarrow> Inl TransformerNotFound
             | Some tf \<Rightarrow>
                 (case decode_records rest of
                    Inl e \<Rightarrow> Inl e
                  | Inr ret \<Rightarrow> Inr (\<lparr>Transformer = tf, Arguments = map stringOf a\<rparr> # ret)))
      | _ \<Rightarrow> Inl IdOrArgsMalformed)"

definition decodeATL :: "string \<Rightarrow> error + PSTransformerWithArguments list" where
  "decodeATL t =
     (case JSON_parse t of
        None \<Rightarrow> Inl SyntaxError
      | Some p \<Rightarrow>
          (case p of
             JArray records \<Rightarrow> decode_records records
           | _ \<Rightarrow> Inl ParsedNotArray))"

section \<open>Reference notions for the properties\<close>

text \<open>
  The wording of the specification, written out so that the code can be compared with it:
  the results of a list of applications in sequence (the first error wins), the map of a
  function over the leaf strings of a value, the leaves themselves, and one step of the
  chain in which a failing application leaves the value as it was.
\<close>

fun sequence_results :: "(error + 'a) list \<Rightarrow> error + 'a list" where
  "sequence_results [] = Inr []"
| "sequence_results (Inl e # rs) = Inl e"
| "sequence_results (Inr x # rs) =
     (case sequence_results rs of Inl e \<Rightarrow> Inl e | Inr xs \<Rightarrow> Inr (x # xs))"

fun leaves :: "val \<Rightarrow> string list" where
  "leaves Undefined = []"
| "leaves (Str s) = [s]"
| "leaves (Arr xs) = concat (map leaves xs)"

fun all_strings :: "val \<Rightarrow> bool" where
  "all_strings Undefined = False"
| "all_strings (Str s) = True"
| "all_strings (Arr xs) = list_all all_strings xs"

fun map_leaves :: "(string \<Rightarrow> val) \<Rightarrow> val \<Rightarrow> val" where
  "map_leaves g Undefined = Undefined"
| "map_leaves g (Str s) = g s"
| "map_leaves g (Arr xs) = Arr (map (map_leaves g) xs)"

definition step_or_skip :: "val \<Rightarrow> PSTransformerWithArguments \<Rightarrow> val" where
  "step_or_skip v t = (case applyTransformer v t of Inr v' \<Rightarrow> v' | Inl e \<Rightarrow> v)"

text \<open>
  The reading of a separator that the specification describes: every \<^verbatim>\<open>%w%\<close>, found from
  left to right, is a lazy wildcard, and every other code unit stands for itself.
\<close>

function sep_tokens :: "string \<Rightarrow> rtoken list" where
  "sep_tokens [] = []"
| "sep_tokens (c # cs) =
     (if prefix ''%w%'' (c # cs) then LazyAny # sep_tokens (drop 3 (c # cs))
      else Lit c # sep_tokens cs)"
  by pat_completeness auto
termination
  by (relation "measure length") auto






text \<open>
  The JSON values that \<^verbatim>\<open>encodeATL\<close> produces are built from strings, arrays and objects
  only.
\<close>

fun string_tree :: "json \<Rightarrow> bool"
  and string_trees :: "json list \<Rightarrow> bool"
  and string_members :: "(string \<times> json) list \<Rightarrow> bool" where
  "string_tree JNull = False"
| "string_tree (JBool b) = False"
| "string_tree (JNumber n) = False"
| "string_tree (JString s) = True"
| "string_tree (JArray xs) = string_trees xs"
| "string_tree (JObject ms) = string_members ms"
| "string_trees [] = True"
| "string_trees (x # xs) = (string_tree x \<and> string_trees xs)"
| "string_members [] = True"
| "string_members ((k, x) # ms) = (string_tree x \<and> string_members ms)"

section \<open>Verified properties\<close>

subsection \<open>Index selection of \<^verbatim>\<open>slice_array\<close>\<close>

lemma str_split_from_no_sep:
  "c \<notin> set cur \<Longrightarrow> p \<in> set (str_split_from [c] cur s) \<Longrightarrow> c \<notin> set p"
proof (induction "[c]" cur s arbitrary: p rule: str_split_from.induct)
  case (1 cur)
  then show ?case by simp
next
  case (2 cur d ds)
  show ?case
  proof (cases "d = c")
    case True
    with 2 show ?thesis by auto
  next
    case False
    with 2 show ?thesis by auto
  qed
qed

lemma str_split_parts_no_sep: "p \<in> set (str_split S [c]) \<Longrightarrow> c \<notin> set p"
  using str_split_from_no_sep [of c "[]" p S] by (simp add: str_split_def)

lemma parseInt_nonneg:
  assumes "CHR ''-'' \<notin> set p" "parseInt p = Some n"
  shows "0 \<le> n"
proof -
  let ?S = "dropWhile isWhiteSpace p"
  have "?S = [] \<or> hd ?S \<noteq> CHR ''-''"
    using assms(1) by (metis hd_in_set set_dropWhileD)
  then show ?thesis
    using assms(2) by (auto simp: parseInt_def Let_def split: if_splits)
qed

lemma take_drop_nths: "take (e - s) (drop s v) = nths v {s..<e}"
proof (induction v arbitrary: s e)
  case Nil
  then show ?case by simp
next
  case (Cons x xs)
  show ?case
  proof (cases s)
    case 0
    have "{j. Suc j < e} = {..<e - 1}" by auto
    then show ?thesis using 0 by (cases e) (simp_all add: nths_Cons)
  next
    case (Suc s')
    have "{j. Suc s' \<le> Suc j \<and> Suc j < e} = {s'..<e - 1}" by auto
    then show ?thesis using Suc Cons.IH [of "e - 1" s'] by (simp add: nths_Cons)
  qed
qed

lemma slice_nths:
  assumes "0 \<le> toIntegerOrInfinity s" "0 \<le> toIntegerOrInfinity e"
  shows "slice v s e = nths v {nat (toIntegerOrInfinity s) ..< nat (toIntegerOrInfinity e)}"
proof -
  let ?s = "nat (toIntegerOrInfinity s)" and ?e = "nat (toIntegerOrInfinity e)"
  have "slice v s e = take (min ?e (length v) - min ?s (length v)) (drop (min ?s (length v)) v)"
    using assms by (simp add: slice_def relativeIndex_def Let_def)
  also have "\<dots> = take (?e - ?s) (drop ?s v)"
    by (cases "?s \<le> length v"; cases "?e \<le> length v") (simp_all add: min_def)
  finally show ?thesis by (simp add: take_drop_nths)
qed

lemma dash_part_bound:
  assumes "p \<in> set (str_split S ''-'')"
  shows "0 \<le> toIntegerOrInfinity (parseInt p)"
  using assms parseInt_nonneg [of p] str_split_parts_no_sep [of p S "CHR ''-''"]
  by (cases "parseInt p") (simp_all add: toIntegerOrInfinity_def)

lemma slice_array_never_raises: "\<exists>r. slice_array_Func (Arr v) [indexes] = Inr (Arr r)"
  by (simp add: slice_array_Func_def arg_def Let_def)

lemma slice_array_range:
  assumes "str_includes (normalizeIndexes indexes) ''-''"
  shows "slice_array_Func (Arr v) [indexes] =
     (case str_split (normalizeIndexes indexes) ''-'' of
        [p0, p1] \<Rightarrow> Inr (Arr (slice v (parseInt p0) (parseInt p1)))
      | _ \<Rightarrow> Inr (Arr v))"
proof (cases "length (str_split (normalizeIndexes indexes) ''-'') = 2")
  case True
  then obtain p0 p1 where parts: "str_split (normalizeIndexes indexes) ''-'' = [p0, p1]"
    by (auto simp: length_Suc_conv numeral_2_eq_2)
  then show ?thesis
    using assms by (simp add: slice_array_Func_def arg_def Let_def)
next
  case False
  then show ?thesis
    using assms
    by (auto simp: slice_array_Func_def arg_def Let_def split: list.splits)
qed

lemma slice_dash_parts:
  assumes "str_split S ''-'' = [p0, p1]"
  shows "slice v (parseInt p0) (parseInt p1) =
     nths v {nat (toIntegerOrInfinity (parseInt p0)) ..< nat (toIntegerOrInfinity (parseInt p1))}"
  using dash_part_bound [of p0 S] dash_part_bound [of p1 S] assms by (simp add: slice_nths)

lemma slice_array_empty_text: "slice_array_Func (Arr v) [''''] = Inr (Arr v)"
  by (simp add: slice_array_Func_def arg_def normalizeIndexes_def str_replaceAll_def parseInt_def)

lemma slice_array_letters: "slice_array_Func (Arr v) [''abc''] = Inr (Arr v)"
  by (simp add: slice_array_Func_def arg_def normalizeIndexes_def str_replaceAll_def parseInt_def
      isWhiteSpace_def isDigit_def)

lemma slice_array_two_dashes: "slice_array_Func (Arr v) [''1-2-3''] = Inr (Arr v)"
  by (simp add: slice_array_Func_def arg_def normalizeIndexes_def str_replaceAll_def str_split_def)

lemma slice_array_0_2:
  "slice_array_Func (Arr [Str ''a'', Str ''b'', Str ''c'', Str ''d'']) [''0-2'']
     = Inr (Arr [Str ''a'', Str ''b''])"
  by (simp add: slice_array_Func_def arg_def normalizeIndexes_def str_replaceAll_def str_split_def
      parseInt_def isWhiteSpace_def isDigit_def mathInt_def digitValue_def slice_def
      relativeIndex_def toIntegerOrInfinity_def)

lemma slice_array_1_3:
  "slice_array_Func (Arr [Str ''a'', Str ''b'', Str ''c'', Str ''d'']) [''1,3'']
     = Inr (Arr [Str ''b'', Str ''d''])"
  by (simp add: slice_array_Func_def arg_def normalizeIndexes_def str_replaceAll_def str_split_def
      parseInt_def isWhiteSpace_def isDigit_def mathInt_def digitValue_def pullAt_def baseGet_def
      cloneDeep_def)

lemma pullAt_leaves_the_rest:
  "pullAt [Str ''a'', Str ''b'', Str ''c'', Str ''d''] [Some 1, Some 3]
     = ([Str ''b'', Str ''d''], [Str ''a'', Str ''c''])"
  by (simp add: pullAt_def baseGet_def basePullAt_def enumerate_eq_zip upt_rec)

text \<open>
  C1 as stated fails.  The list mode does not return what is left after the removal: it
  returns what \<^verbatim>\<open>pullAt\<close> returns, the removed elements.  On \<^verbatim>\<open>["a","b","c","d"]\<close> the
  argument \<^verbatim>\<open>"1,3"\<close> gives \<^verbatim>\<open>["b","d"]\<close>, not \<^verbatim>\<open>["a","c"]\<close>; the latter is what is left
  in the clone, which the body drops (lemma \<open>pullAt_leaves_the_rest\<close>).
\<close>

theorem slice_array_list_counterexample:
  "slice_array_Func (Arr [Str ''a'', Str ''b'', Str ''c'', Str ''d'']) [''1,3'']
     = Inr (Arr [Str ''b'', Str ''d''])
   \<and> slice_array_Func (Arr [Str ''a'', Str ''b'', Str ''c'', Str ''d'']) [''1,3'']
     \<noteq> Inr (Arr [Str ''a'', Str ''c''])"
  by (simp add: slice_array_1_3)

text \<open>
  C1, amended: when the normalized argument has no dash, \<^verbatim>\<open>slice_array\<close> returns the
  selected elements.  With a comma the result has one entry for each comma-separated
  part, in the order of the parts: the element of \<open>v\<close> at the parsed index, and
  \<^verbatim>\<open>undefined\<close> when the part does not parse or the index is outside \<open>v\<close>.  Without a comma
  the result is the one-element array holding the element at the parsed index
  (\<^verbatim>\<open>undefined\<close> when outside \<open>v\<close>), and \<open>v\<close> itself when the text does not parse.
\<close>

theorem slice_array_list_selects:
  assumes "\<not> str_includes (normalizeIndexes indexes) ''-''"
  shows "\<exists>r. slice_array_Func (Arr v) [indexes] = Inr (Arr r) \<and>
     (if str_includes (normalizeIndexes indexes) '',''
      then (let parts = str_split (normalizeIndexes indexes) '',''
            in length r = length parts \<and>
               (\<forall>k<length parts. r ! k =
                  (case parseInt (parts ! k) of
                     None \<Rightarrow> Undefined
                   | Some n \<Rightarrow> if 0 \<le> n \<and> n < int (length v) then v ! nat n else Undefined)))
      else (case parseInt (normalizeIndexes indexes) of
              None \<Rightarrow> r = v
            | Some n \<Rightarrow> r = [if 0 \<le> n \<and> n < int (length v) then v ! nat n else Undefined]))"
proof -
  have get: "baseGet v i =
      (case i of None \<Rightarrow> Undefined
       | Some n \<Rightarrow> if 0 \<le> n \<and> n < int (length v) then v ! nat n else Undefined)" for i
    by (auto simp: baseGet_def split: option.splits)
  show ?thesis
  proof (cases "str_includes (normalizeIndexes indexes) '',''")
    case True
    with assms show ?thesis
      by (simp add: slice_array_Func_def arg_def Let_def pullAt_def cloneDeep_def get)
  next
    case False
    with assms show ?thesis
      by (auto simp: slice_array_Func_def arg_def Let_def pullAt_def cloneDeep_def get
          split: option.splits)
  qed
qed

theorem slice_array_list_selects_witness:
  "\<not> str_includes (normalizeIndexes ''3, 0,9'') ''-'' \<and>
   (\<exists>r. slice_array_Func (Arr [Str ''a'', Str ''b'', Str ''c'', Str ''d'']) [''3, 0,9'']
          = Inr (Arr r) \<and> length r = 3 \<and> r ! 0 = Str ''d'' \<and> r ! 1 = Str ''a''
          \<and> r ! 2 = Undefined)"
proof -
  let ?v = "[Str ''a'', Str ''b'', Str ''c'', Str ''d'']"
  have n: "normalizeIndexes ''3, 0,9'' = ''3,0,9''"
    by (simp add: normalizeIndexes_def str_replaceAll_def)
  have h: "\<not> str_includes (normalizeIndexes ''3, 0,9'') ''-''"
    by (simp add: n)
  have s: "str_split ''3,0,9'' '','' = [''3'', ''0'', ''9'']"
    by (simp add: str_split_def)
  have p: "parseInt ''3'' = Some 3" "parseInt ''0'' = Some 0" "parseInt ''9'' = Some 9"
    by (simp_all add: parseInt_def isWhiteSpace_def isDigit_def mathInt_def digitValue_def)
  from slice_array_list_selects [OF h, of ?v]
  obtain r where r: "slice_array_Func (Arr ?v) [''3, 0,9''] = Inr (Arr r)"
    and len: "length r = 3"
    and el: "\<forall>k<3. r ! k = (case parseInt ([''3'', ''0'', ''9''] ! k) of None \<Rightarrow> Undefined
       | Some n \<Rightarrow> if 0 \<le> n \<and> n < int (length ?v) then ?v ! nat n else Undefined)"
    unfolding n s Let_def by auto
  have "r ! 0 = Str ''d''" "r ! 1 = Str ''a''" "r ! 2 = Undefined"
    using el [rule_format, of 0] el [rule_format, of 1] el [rule_format, of 2] p by simp_all
  with h r len show ?thesis by blast
qed

text \<open>
  C7: in range mode (a dash in the normalized argument) \<^verbatim>\<open>slice_array\<close> returns
  \<^verbatim>\<open>v.slice(start, end)\<close> when the split on the dash has exactly two parts, and \<open>v\<close>
  otherwise.  The two bounds are never negative (a part holds no dash), an unparseable
  bound counts as 0, so the slice is the elements of \<open>v\<close> at the positions
  \<open>start \<le> i < end\<close> that exist.  No argument text makes the body raise; the texts
  \<^verbatim>\<open>""\<close>, \<^verbatim>\<open>"abc"\<close> and \<^verbatim>\<open>"1-2-3"\<close> return the array as it is, and \<^verbatim>\<open>"0-2"\<close> on
  \<^verbatim>\<open>["a","b","c","d"]\<close> gives \<^verbatim>\<open>["a","b"]\<close>.
\<close>

theorem slice_array_range_mode:
  "(str_includes (normalizeIndexes indexes) ''-'' \<longrightarrow>
      (case str_split (normalizeIndexes indexes) ''-'' of
         [p0, p1] \<Rightarrow>
           slice_array_Func (Arr v) [indexes] = Inr (Arr (slice v (parseInt p0) (parseInt p1)))
           \<and> slice v (parseInt p0) (parseInt p1) =
               nths v {nat (toIntegerOrInfinity (parseInt p0))
                         ..< nat (toIntegerOrInfinity (parseInt p1))}
       | _ \<Rightarrow> slice_array_Func (Arr v) [indexes] = Inr (Arr v)))
   \<and> (\<exists>r. slice_array_Func (Arr v) [indexes] = Inr (Arr r))
   \<and> slice_array_Func (Arr v) [''''] = Inr (Arr v)
   \<and> slice_array_Func (Arr v) [''abc''] = Inr (Arr v)
   \<and> slice_array_Func (Arr v) [''1-2-3''] = Inr (Arr v)
   \<and> slice_array_Func (Arr [Str ''a'', Str ''b'', Str ''c'', Str ''d'']) [''0-2'']
        = Inr (Arr [Str ''a'', Str ''b''])"
proof -
  have "case str_split (normalizeIndexes indexes) ''-'' of
         [p0, p1] \<Rightarrow>
           slice_array_Func (Arr v) [indexes] = Inr (Arr (slice v (parseInt p0) (parseInt p1)))
           \<and> slice v (parseInt p0) (parseInt p1) =
               nths v {nat (toIntegerOrInfinity (parseInt p0))
                         ..< nat (toIntegerOrInfinity (parseInt p1))}
       | _ \<Rightarrow> slice_array_Func (Arr v) [indexes] = Inr (Arr v)"
    if "str_includes (normalizeIndexes indexes) ''-''"
    using slice_array_range [OF that, of v] slice_dash_parts [of "normalizeIndexes indexes" _ _ v]
    by (auto split: list.splits)
  then show ?thesis
    using slice_array_never_raises [of v indexes]
    by (simp add: slice_array_empty_text slice_array_letters slice_array_two_dashes
        slice_array_0_2)
qed

theorem slice_array_range_mode_witness:
  "str_includes (normalizeIndexes '' 1 - 3'') ''-'' \<and>
   slice_array_Func (Arr [Str ''a'', Str ''b'', Str ''c'', Str ''d'']) ['' 1 - 3'']
     = Inr (Arr (nths [Str ''a'', Str ''b'', Str ''c'', Str ''d''] {1..<3}))"
proof -
  have n: "normalizeIndexes '' 1 - 3'' = ''1-3''"
    by (simp add: normalizeIndexes_def str_replaceAll_def)
  have p: "parseInt ''1'' = Some 1" "parseInt ''3'' = Some 3"
    by (simp_all add: parseInt_def isWhiteSpace_def isDigit_def mathInt_def digitValue_def)
  have s: "str_split ''1-3'' ''-'' = [''1'', ''3'']"
    by (simp add: str_split_def)
  have h: "str_includes (normalizeIndexes '' 1 - 3'') ''-''"
    by (simp add: n)
  from slice_array_range_mode [of "'' 1 - 3''" "[Str ''a'', Str ''b'', Str ''c'', Str ''d'']"] h
  show ?thesis
    by (simp add: n s p toIntegerOrInfinity_def)
qed

subsection \<open>\<^verbatim>\<open>applyTransformer\<close> and the chain\<close>

lemma mapApply_sequence:
  "mapApply xs t = sequence_results (map (\<lambda>vm. applyTransformer vm t) xs)"
proof (induction xs)
  case Nil
  then show ?case by simp
next
  case (Cons x xs)
  then show ?case by (cases "applyTransformer x t") simp_all
qed

lemma applyTransformer_leaves:
  "Target (Transformer t) = KString \<Longrightarrow> all_strings v \<Longrightarrow>
     (\<And>s. s \<in> set (leaves v) \<Longrightarrow> Func (Transformer t) (Str s) (Arguments t) = Inr (g s)) \<Longrightarrow>
     applyTransformer v t = Inr (map_leaves g v)"
  and "Target (Transformer t) = KString \<Longrightarrow> list_all all_strings vs \<Longrightarrow>
     (\<And>s. s \<in> set (concat (map leaves vs)) \<Longrightarrow> Func (Transformer t) (Str s) (Arguments t) = Inr (g s)) \<Longrightarrow>
     mapApply vs t = Inr (map (map_leaves g) vs)"
proof (induction v t and vs t rule: applyTransformer_mapApply.induct)
  case (1 t)
  then show ?case by simp
next
  case (2 s t)
  then show ?case by simp
next
  case (3 v t)
  then show ?case by simp
next
  case (4 t)
  then show ?case by simp
next
  case (5 vm rest t)
  then show ?case by simp
qed

text \<open>
  \<^verbatim>\<open>applyTransformer\<close> calls \<^verbatim>\<open>Func\<close> only on a value of the shape that the transformer
  targets: two transformers whose bodies agree on strings (for a string target) or on
  arrays (for an array target) are applied alike.
\<close>

lemma applyTransformer_shape:
  "Target (Transformer t') = Target (Transformer t) \<Longrightarrow> Arguments t' = Arguments t \<Longrightarrow>
   (Target (Transformer t) = KString \<longrightarrow>
      (\<forall>s. Func (Transformer t') (Str s) (Arguments t) = Func (Transformer t) (Str s) (Arguments t))) \<Longrightarrow>
   (Target (Transformer t) = KArray \<longrightarrow>
      (\<forall>a. Func (Transformer t') (Arr a) (Arguments t) = Func (Transformer t) (Arr a) (Arguments t))) \<Longrightarrow>
   applyTransformer v t' = applyTransformer v t"
  "Target (Transformer t') = Target (Transformer t) \<Longrightarrow> Arguments t' = Arguments t \<Longrightarrow>
   (Target (Transformer t) = KString \<longrightarrow>
      (\<forall>s. Func (Transformer t') (Str s) (Arguments t) = Func (Transformer t) (Str s) (Arguments t))) \<Longrightarrow>
   (Target (Transformer t) = KArray \<longrightarrow>
      (\<forall>a. Func (Transformer t') (Arr a) (Arguments t) = Func (Transformer t) (Arr a) (Arguments t))) \<Longrightarrow>
   mapApply vs t' = mapApply vs t"
proof (induction v t and vs t rule: applyTransformer_mapApply.induct)
  case (1 t)
  then show ?case by simp
next
  case (2 s t)
  then show ?case by (cases "Target (Transformer t)") simp_all
next
  case (3 v t)
  then show ?case by (cases "Target (Transformer t)") simp_all
next
  case (4 t)
  then show ?case by simp
next
  case (5 vm rest t)
  then show ?case by (cases "applyTransformer vm t") simp_all
qed

lemma forEach_apply_Cons:
  "forEach_apply v (t # ts) =
     (case applyTransformer v t of
        Inr v' \<Rightarrow> forEach_apply v' ts
      | Inl e \<Rightarrow> (fst (forEach_apply v ts), (Name (Transformer t), e) # snd (forEach_apply v ts)))"
  by (simp split: sum.splits prod.splits)

lemma forEach_apply_fold: "fst (forEach_apply v ts) = foldl step_or_skip v ts"
  by (induction ts arbitrary: v)
    (simp_all add: forEach_apply_Cons step_or_skip_def del: forEach_apply.simps(2) split: sum.splits)

lemma forEach_apply_append:
  "forEach_apply v (p1 @ p2) =
     (fst (forEach_apply (fst (forEach_apply v p1)) p2),
      snd (forEach_apply v p1) @ snd (forEach_apply (fst (forEach_apply v p1)) p2))"
  by (induction p1 arbitrary: v)
    (simp_all add: forEach_apply_Cons del: forEach_apply.simps(2) split: sum.splits)

text \<open>
  C8: a transformer that targets strings distributes over arrays.  Applied to an array it
  is the map of its application over the elements (an error of an element is the error of
  the whole), applied to a string it is its \<^verbatim>\<open>Func\<close>; hence on a value of any depth whose
  leaves are strings, and on whose leaves \<^verbatim>\<open>Func\<close> returns, the result has the same array
  structure with \<^verbatim>\<open>Func\<close> applied to every leaf.
\<close>

theorem string_transformer_distributes:
  assumes "Target (Transformer t) = KString"
  shows "applyTransformer (Arr xs) t
           = map_sum id Arr (sequence_results (map (\<lambda>vm. applyTransformer vm t) xs))
     \<and> applyTransformer (Str s) t = Func (Transformer t) (Str s) (Arguments t)
     \<and> (all_strings v \<longrightarrow>
          (\<forall>l\<in>set (leaves v). Func (Transformer t) (Str l) (Arguments t) = Inr (g l)) \<longrightarrow>
          applyTransformer v t = Inr (map_leaves g v))"
  using assms applyTransformer_leaves(1) [of t v g] by (simp add: mapApply_sequence)

theorem string_transformer_distributes_witness:
  "Target (Transformer \<lparr>Transformer = PSTransformers ! 2, Arguments = []\<rparr>) = KString
   \<and> all_strings (Arr [Str '' a '', Arr [Str ''b ''], Arr []])
   \<and> applyTransformer (Arr [Str '' a '', Arr [Str ''b ''], Arr []])
        \<lparr>Transformer = PSTransformers ! 2, Arguments = []\<rparr>
      = Inr (Arr [Str ''a'', Arr [Str ''b''], Arr []])"
proof -
  let ?t = "\<lparr>Transformer = PSTransformers ! 2, Arguments = []\<rparr>"
  let ?v = "Arr [Str '' a '', Arr [Str ''b ''], Arr []]"
  have tg: "Target (Transformer ?t) = KString"
    by (simp add: PSTransformers_def)
  have fn: "Func (Transformer ?t) (Str l) (Arguments ?t) = Inr (Str (trim l))" for l
    by (simp add: PSTransformers_def trim_Func_def)
  have tr: "trim '' a '' = ''a''" "trim ''b '' = ''b''"
    by (simp_all add: trim_def isWhiteSpace_def)
  from string_transformer_distributes [OF tg, of _ _ ?v "\<lambda>l. Str (trim l)"] fn
  have "applyTransformer ?v ?t = Inr (map_leaves (\<lambda>l. Str (trim l)) ?v)"
    by simp
  then show ?thesis
    using tg by (simp add: tr)
qed

text \<open>
  C9: a transformer that targets arrays, applied to the empty array, returns the empty
  array whatever its \<^verbatim>\<open>Func\<close> is, so \<^verbatim>\<open>Func\<close> is not called.  For \<^verbatim>\<open>join\<close>, declared to
  return a string, the result on \<^verbatim>\<open>[]\<close> is the empty array and not the empty string that
  its \<^verbatim>\<open>Func\<close> gives.
\<close>

theorem array_transformer_on_empty_array:
  "(Target (Transformer t) = KArray \<longrightarrow>
      applyTransformer (Arr []) t = Inr (Arr [])
      \<and> (\<forall>f. applyTransformer (Arr []) (t\<lparr>Transformer := (Transformer t)\<lparr>Func := f\<rparr>\<rparr>)
                = Inr (Arr [])))
   \<and> (\<forall>j\<in>set PSTransformers. ID j = ''join'' \<longrightarrow>
        Target j = KArray \<and> Return j = KString
        \<and> applyTransformer (Arr []) \<lparr>Transformer = j, Arguments = args\<rparr> = Inr (Arr [])
        \<and> Func j (Arr []) args = Inr (Str ''''))"
  by (simp add: PSTransformers_def join_Func_def)

theorem array_transformer_on_empty_array_witness:
  "Target (Transformer \<lparr>Transformer = PSTransformers ! 9, Arguments = [''-'']\<rparr>) = KArray
   \<and> PSTransformers ! 9 \<in> set PSTransformers \<and> ID (PSTransformers ! 9) = ''join''
   \<and> applyTransformer (Arr []) \<lparr>Transformer = PSTransformers ! 9, Arguments = [''-'']\<rparr>
       = Inr (Arr [])
   \<and> Func (PSTransformers ! 9) (Arr []) [''-''] = Inr (Str '''')"
proof -
  have tg: "Target (Transformer \<lparr>Transformer = PSTransformers ! 9, Arguments = [''-'']\<rparr>) = KArray"
    by (simp add: PSTransformers_def)
  have mem: "PSTransformers ! 9 \<in> set PSTransformers"
    by (simp add: PSTransformers_def)
  have jid: "ID (PSTransformers ! 9) = ''join''"
    by (simp add: PSTransformers_def)
  from array_transformer_on_empty_array
    [of "\<lparr>Transformer = PSTransformers ! 9, Arguments = [''-'']\<rparr>" "[''-'']"] tg mem jid
  show ?thesis by blast
qed

text \<open>
  C10: with the empty string as input \<^verbatim>\<open>outputValue\<close> is the empty string for every
  pipeline, and nothing is applied or reported; \<^verbatim>\<open>split\<close> with the separator \<^verbatim>\<open>","\<close>,
  had it been applied to the empty string, would have given \<^verbatim>\<open>[""]\<close>.
\<close>

theorem empty_input_short_circuit:
  "outputValue '''' AppliedTransformers = (Str '''', [])
   \<and> ID (PSTransformers ! 0) = ''split''
   \<and> applyTransformer (Str '''') \<lparr>Transformer = PSTransformers ! 0, Arguments = ['','']\<rparr>
       = Inr (Arr [Str ''''])
   \<and> outputValue '''' [\<lparr>Transformer = PSTransformers ! 0, Arguments = ['','']\<rparr>]
       = (Str '''', [])"
  by (simp add: outputValue_def PSTransformers_def split_Func_def arg_def str_split_def)

text \<open>
  C3 as stated fails for the empty input.  There \<^verbatim>\<open>outputValue\<close> returns the empty string
  before any step, and the output is not the fold of the steps: \<^verbatim>\<open>split\<close> on \<^verbatim>\<open>","\<close> would
  have turned the empty string into \<^verbatim>\<open>[""]\<close>.
\<close>

theorem chain_empty_input_counterexample:
  "fst (outputValue '''' [\<lparr>Transformer = PSTransformers ! 0, Arguments = ['','']\<rparr>])
     \<noteq> foldl step_or_skip (Str '''') [\<lparr>Transformer = PSTransformers ! 0, Arguments = ['','']\<rparr>]"
  by (simp add: outputValue_def step_or_skip_def PSTransformers_def split_Func_def arg_def
      str_split_def)

text \<open>
  C3, amended: for every input that is not empty, the chain is a left fold over the applied
  transformers in which a failing step is the identity.  When the step \<open>t\<close> that follows
  the steps \<open>p1\<close> throws \<open>e\<close>, the value that the steps after \<open>t\<close> start from is the value
  before \<open>t\<close>, the output is the output of the pipeline without \<open>t\<close>, and the alerts name
  \<open>t\<close> with \<open>e\<close> between the alerts of \<open>p1\<close> and those of the later steps.
\<close>

theorem chain_skips_failing_step:
  assumes "InputValue \<noteq> []"
  shows "fst (outputValue InputValue ts) = foldl step_or_skip (Str InputValue) ts
     \<and> (applyTransformer (foldl step_or_skip (Str InputValue) p1) t = Inl e \<longrightarrow>
          step_or_skip (foldl step_or_skip (Str InputValue) p1) t
            = foldl step_or_skip (Str InputValue) p1
          \<and> fst (outputValue InputValue (p1 @ t # p2)) = fst (outputValue InputValue (p1 @ p2))
          \<and> outputValue InputValue (p1 @ t # p2) =
              (foldl step_or_skip (Str InputValue) (p1 @ p2),
               snd (outputValue InputValue p1)
               @ (Name (Transformer t), e)
               # snd (forEach_apply (foldl step_or_skip (Str InputValue) p1) p2)))"
proof -
  let ?v = "fst (forEach_apply (Str InputValue) p1)"
  have out: "outputValue InputValue ps = forEach_apply (Str InputValue) ps" for ps
    using assms by (simp add: outputValue_def)
  have fold: "fst (outputValue InputValue ts) = foldl step_or_skip (Str InputValue) ts"
    by (simp add: out forEach_apply_fold)
  have failing: "step_or_skip (foldl step_or_skip (Str InputValue) p1) t
            = foldl step_or_skip (Str InputValue) p1
          \<and> fst (outputValue InputValue (p1 @ t # p2)) = fst (outputValue InputValue (p1 @ p2))
          \<and> outputValue InputValue (p1 @ t # p2) =
              (foldl step_or_skip (Str InputValue) (p1 @ p2),
               snd (outputValue InputValue p1)
               @ (Name (Transformer t), e)
               # snd (forEach_apply (foldl step_or_skip (Str InputValue) p1) p2))"
    if "applyTransformer (foldl step_or_skip (Str InputValue) p1) t = Inl e"
  proof -
    from that have raised: "applyTransformer ?v t = Inl e"
      by (simp add: forEach_apply_fold)
    have at_t: "forEach_apply ?v (t # p2)
        = (fst (forEach_apply ?v p2), (Name (Transformer t), e) # snd (forEach_apply ?v p2))"
      using raised by (simp add: forEach_apply_Cons del: forEach_apply.simps(2))
    have with_t: "forEach_apply (Str InputValue) (p1 @ t # p2)
        = (fst (forEach_apply ?v p2),
           snd (forEach_apply (Str InputValue) p1)
           @ (Name (Transformer t), e) # snd (forEach_apply ?v p2))"
      by (simp add: forEach_apply_append [of _ p1 "t # p2"] at_t del: forEach_apply.simps(2))
    have without_t: "fst (forEach_apply (Str InputValue) (p1 @ p2)) = fst (forEach_apply ?v p2)"
      by (simp add: forEach_apply_append [of _ p1 p2])
    have skip: "step_or_skip ?v t = ?v"
      using raised by (simp add: step_or_skip_def)
    show ?thesis
      using with_t without_t skip
      by (simp add: out forEach_apply_fold [symmetric] del: forEach_apply.simps(2))
  qed
  from fold failing show ?thesis by blast
qed

theorem chain_skips_failing_step_witness:
  "''b,a'' \<noteq> []
   \<and> applyTransformer
       (foldl step_or_skip (Str ''b,a'') [\<lparr>Transformer = PSTransformers ! 0, Arguments = ['','']\<rparr>])
       \<lparr>Transformer = PSTransformers ! 0, Arguments = []\<rparr> = Inl TypeError
   \<and> outputValue ''b,a''
       [\<lparr>Transformer = PSTransformers ! 0, Arguments = ['','']\<rparr>,
        \<lparr>Transformer = PSTransformers ! 0, Arguments = []\<rparr>,
        \<lparr>Transformer = PSTransformers ! 7, Arguments = []\<rparr>]
      = (Arr [Str ''a'', Str ''b''], [(''Split'', TypeError)])
   \<and> outputValue ''b,a''
       [\<lparr>Transformer = PSTransformers ! 0, Arguments = ['','']\<rparr>,
        \<lparr>Transformer = PSTransformers ! 7, Arguments = []\<rparr>]
      = (Arr [Str ''a'', Str ''b''], [])"
proof -
  let ?s = "\<lparr>Transformer = PSTransformers ! 0, Arguments = ['','']\<rparr>"
  let ?bad = "\<lparr>Transformer = PSTransformers ! 0, Arguments = []\<rparr>"
  let ?r = "\<lparr>Transformer = PSTransformers ! 7, Arguments = []\<rparr>"
  have ne: "''b,a'' \<noteq> []"
    by simp
  have s1: "applyTransformer (Str ''b,a'') ?s = Inr (Arr [Str ''b'', Str ''a''])"
    by (simp add: PSTransformers_def split_Func_def arg_def str_split_def)
  have s2: "applyTransformer (Arr [Str ''b'', Str ''a'']) ?bad = Inl TypeError"
    by (simp add: PSTransformers_def split_Func_def arg_def)
  have s3: "applyTransformer (Arr [Str ''b'', Str ''a'']) ?r = Inr (Arr [Str ''a'', Str ''b''])"
    by (simp add: PSTransformers_def reverse_Func_def cloneDeep_def)
  have nm: "Name (Transformer ?bad) = ''Split''"
    by (simp add: PSTransformers_def)
  have h: "applyTransformer (foldl step_or_skip (Str ''b,a'') [?s]) ?bad = Inl TypeError"
    using s1 s2 by (simp add: step_or_skip_def)
  have o1: "outputValue ''b,a'' [?s] = (Arr [Str ''b'', Str ''a''], [])"
    using s1 by (simp add: outputValue_def)
  have o2: "outputValue ''b,a'' [?s, ?r] = (Arr [Str ''a'', Str ''b''], [])"
    using s1 s3 by (simp add: outputValue_def)
  from chain_skips_failing_step [OF ne, of _ "[?s]" ?bad TypeError "[?r]"] h
  have "outputValue ''b,a'' ([?s] @ ?bad # [?r])
      = (foldl step_or_skip (Str ''b,a'') ([?s] @ [?r]),
         snd (outputValue ''b,a'' [?s]) @ (Name (Transformer ?bad), TypeError)
         # snd (forEach_apply (foldl step_or_skip (Str ''b,a'') [?s]) [?r]))"
    by blast
  then have "outputValue ''b,a'' [?s, ?bad, ?r]
      = (Arr [Str ''a'', Str ''b''], [(''Split'', TypeError)])"
    using s1 s3 nm o1 by (simp add: step_or_skip_def)
  with ne h o2 show ?thesis by blast
qed

subsection \<open>The wildcard separator of \<^verbatim>\<open>split\<close>\<close>

lemma getSubstitution_plain:
  "CHR ''$'' \<notin> set rep \<Longrightarrow> getSubstitution m b a caps rep = rep"
  by (induction m b a caps rep rule: getSubstitution.induct) auto

lemma wildcard_prefix_escape:
  "prefix ''%w%'' (escapeRegExp s) \<longleftrightarrow> prefix ''%w%'' s"
proof (cases s)
  case Nil
  then show ?thesis by (simp add: escapeRegExp_def)
next
  case s1: (Cons c cs)
  show ?thesis
  proof (cases cs)
    case Nil
    then show ?thesis using s1 by (auto simp: escapeRegExp_def isSyntaxCharacter_def)
  next
    case s2: (Cons d ds)
    show ?thesis
    proof (cases ds)
      case Nil
      then show ?thesis using s1 s2 by (auto simp: escapeRegExp_def isSyntaxCharacter_def)
    next
      case (Cons e es)
      then show ?thesis using s1 s2 by (auto simp: escapeRegExp_def isSyntaxCharacter_def)
    qed
  qed
qed

lemma escapeRegExp_Cons:
  "escapeRegExp (c # cs) = (if isSyntaxCharacter c then [CHR 0x5C, c] else [c]) @ escapeRegExp cs"
  by (simp add: escapeRegExp_def)

lemma escapeRegExp_wildcard:
  "prefix ''%w%'' s \<Longrightarrow> escapeRegExp s = ''%w%'' @ escapeRegExp (drop 3 s)"
  by (auto simp: prefix_def escapeRegExp_def isSyntaxCharacter_def)
lemma replaceAll_wildcard_here:
  "replaceAll_from ''%w%'' ''[^]*?'' passed (''%w%'' @ X)
     = ''[^]*?'' @ replaceAll_from ''%w%'' ''[^]*?'' (passed @ ''%w%'') X"
  by (simp add: getSubstitution_plain)

lemma replaceAll_escaped_syntax:
  "isSyntaxCharacter c \<Longrightarrow>
   replaceAll_from ''%w%'' rep passed (CHR 0x5C # c # X)
     = CHR 0x5C # c # replaceAll_from ''%w%'' rep (passed @ [CHR 0x5C, c]) X"
  by (auto simp: isSyntaxCharacter_def)

lemma replaceAll_plain:
  assumes "\<not> prefix ''%w%'' (c # X)"
  shows "replaceAll_from ''%w%'' rep passed (c # X)
     = c # replaceAll_from ''%w%'' rep (passed @ [c]) X"
  using assms by (simp only: replaceAll_from.simps list.distinct if_False)

lemma RegExp_lazy: "RegExp (''[^]*?'' @ Y) = map_option ((#) LazyAny) (RegExp Y)"
  by simp

lemma RegExp_escaped:
  "isSyntaxCharacter c \<Longrightarrow> RegExp (CHR 0x5C # c # Y) = map_option ((#) (Lit c)) (RegExp Y)"
  by simp

lemma RegExp_plain:
  "\<not> isSyntaxCharacter c \<Longrightarrow> RegExp (c # Y) = map_option ((#) (Lit c)) (RegExp Y)"
  by (auto simp: isSyntaxCharacter_def)

lemma compile_tokens:
  "RegExp (replaceAll_from ''%w%'' ''[^]*?'' passed (escapeRegExp s)) = Some (sep_tokens s)"
proof (induction s arbitrary: passed rule: sep_tokens.induct)
  case 1
  then show ?case by (simp add: escapeRegExp_def)
next
  case (2 c cs)
  show ?case
  proof (cases "prefix ''%w%'' (c # cs)")
    case True
    then show ?thesis
      using "2.IH"(1) [OF True]
      by (simp only: escapeRegExp_wildcard [OF True] replaceAll_wildcard_here RegExp_lazy
          sep_tokens.simps if_True option.map)
  next
    case False
    show ?thesis
    proof (cases "isSyntaxCharacter c")
      case True
      then show ?thesis
        using "2.IH"(2) [OF False] False
        by (simp only: escapeRegExp_Cons if_True append_Cons append_Nil
            replaceAll_escaped_syntax [OF True] RegExp_escaped [OF True] sep_tokens.simps
            if_False option.map)
    next
      case nonsyn: False
      have np: "\<not> prefix ''%w%'' (c # escapeRegExp cs)"
        using False wildcard_prefix_escape [of "c # cs"] nonsyn by (simp add: escapeRegExp_Cons)
      have "RegExp (replaceAll_from ''%w%'' ''[^]*?'' passed (escapeRegExp (c # cs)))
          = map_option ((#) (Lit c))
              (RegExp (replaceAll_from ''%w%'' ''[^]*?'' (passed @ [c]) (escapeRegExp cs)))"
        using nonsyn
        by (simp only: escapeRegExp_Cons if_False append_Cons append_Nil
            replaceAll_plain [OF np] RegExp_plain [OF nonsyn])
      then show ?thesis
        using "2.IH"(2) [OF False] False by simp
    qed
  qed
qed

lemma matchAt_no_captures:
  "GreedyAnyGroup \<notin> set re \<Longrightarrow> matchAt re s = Some (n, caps) \<Longrightarrow> caps = []"
  by (induction re s arbitrary: n caps rule: matchAt.induct) (auto split: if_splits option.splits)

lemma sep_tokens_no_group: "GreedyAnyGroup \<notin> set (sep_tokens s)"
  by (induction s rule: sep_tokens.induct) auto

lemma split_wildcard_example:
  "split_Func (Str ''axxxb-ayb'') [''a%w%b''] = Inr (Arr [Str '''', Str ''-'', Str ''''])"
  by code_simp

lemma lazy_prefers_empty:
  "matchAt ts q = Some r \<Longrightarrow> matchAt (LazyAny # ts) q = Some r"
  by (cases q) simp_all

text \<open>
  C2 as stated fails in its example.  The separator \<^verbatim>\<open>a%w%b\<close> matches \<^verbatim>\<open>axxxb\<close> and then
  \<^verbatim>\<open>ayb\<close>, which ends the string: the parts are \<^verbatim>\<open>["", "-", ""]\<close>, and the last one is
  not \<^verbatim>\<open>"yb"\<close>.
\<close>

theorem split_wildcard_counterexample:
  "split_Func (Str ''axxxb-ayb'') [''a%w%b''] = Inr (Arr [Str '''', Str ''-'', Str ''''])
   \<and> split_Func (Str ''axxxb-ayb'') [''a%w%b''] \<noteq> Inr (Arr [Str '''', Str ''-'', Str ''yb''])"
  by (simp add: split_wildcard_example)

text \<open>
  C2, amended: for a separator that contains \<^verbatim>\<open>%w%\<close>, the regular expression built by
  \<^verbatim>\<open>split\<close> is read as the tokens of the separator, where every code unit other than a
  wildcard stands for itself (the syntax characters are escaped) and every wildcard is the
  lazy, non-capturing match of any code units: no match has a capture, and the wildcard
  takes nothing whenever the rest of the separator matches at once.  \<^verbatim>\<open>"axxxb-ayb"\<close> split
  on \<^verbatim>\<open>"a%w%b"\<close> is \<^verbatim>\<open>["", "-", ""]\<close>.
\<close>

theorem split_wildcard_separator:
  assumes "str_includes sep ''%w%''"
  shows "RegExp (str_replaceAll (escapeRegExp sep) ''%w%'' ''[^]*?'') = Some (sep_tokens sep)
     \<and> split_Func (Str s) [sep] = Inr (Arr (map Str (regex_split (sep_tokens sep) s)))
     \<and> (\<forall>q n caps. matchAt (sep_tokens sep) q = Some (n, caps) \<longrightarrow> caps = [])
     \<and> (\<forall>ts q r. matchAt ts q = Some r \<longrightarrow> matchAt (LazyAny # ts) q = Some r)
     \<and> split_Func (Str ''axxxb-ayb'') [''a%w%b'']
         = Inr (Arr [Str '''', Str ''-'', Str ''''])"
proof -
  have re: "RegExp (str_replaceAll (escapeRegExp sep) ''%w%'' ''[^]*?'') = Some (sep_tokens sep)"
    by (simp add: str_replaceAll_def compile_tokens)
  have "split_Func (Str s) [sep] = Inr (Arr (map Str (regex_split (sep_tokens sep) s)))"
    using assms re by (simp add: split_Func_def arg_def Let_def)
  moreover have "\<forall>q n caps. matchAt (sep_tokens sep) q = Some (n, caps) \<longrightarrow> caps = []"
    using matchAt_no_captures [OF sep_tokens_no_group] by blast
  ultimately show ?thesis
    using re lazy_prefers_empty split_wildcard_example by blast
qed

theorem split_wildcard_separator_witness:
  "str_includes ''a%w%.'' ''%w%''
   \<and> RegExp (str_replaceAll (escapeRegExp ''a%w%.'') ''%w%'' ''[^]*?'')
       = Some [Lit CHR ''a'', LazyAny, Lit CHR ''.'']
   \<and> split_Func (Str ''xa.y.zab.'') [''a%w%.''] = Inr (Arr [Str ''x'', Str ''y.z'', Str ''''])"
proof -
  have h: "str_includes ''a%w%.'' ''%w%''"
    by simp
  have t: "sep_tokens ''a%w%.'' = [Lit CHR ''a'', LazyAny, Lit CHR ''.'']"
    by simp
  have r: "regex_split [Lit CHR ''a'', LazyAny, Lit CHR ''.''] ''xa.y.zab.'' = [''x'', ''y.z'', '''']"
    by code_simp
  from split_wildcard_separator [OF h, of "''xa.y.zab.''"] h show ?thesis
    by (simp add: t r)
qed

subsection \<open>\<^verbatim>\<open>sort\<close>\<close>

















subsection \<open>Decoding a token\<close>




lemma decode_records_shaped:
  "property r ''i'' = Some i \<Longrightarrow> property r ''a'' = Some (JArray a) \<Longrightarrow>
   decode_records (r # rest) =
     (if \<not> list_all isString a then Inl NonStringArgument
      else (case find (\<lambda>pst. JString (ID pst) = i) PSTransformers of
              None \<Rightarrow> Inl TransformerNotFound
            | Some tf \<Rightarrow>
                (case decode_records rest of
                   Inl e \<Rightarrow> Inl e
                 | Inr ret \<Rightarrow> Inr (\<lparr>Transformer = tf, Arguments = map stringOf a\<rparr> # ret))))"
  by simp

declare decode_records.simps(2) [simp del]







subsection \<open>\<^verbatim>\<open>JSON.parse\<close> reads back what \<^verbatim>\<open>JSON.stringify\<close> writes\<close>

lemma hexValue_hexDigit: "k < 16 \<Longrightarrow> hexValue (hexDigit k) = Some k"
proof -
  have "\<forall>k\<in>set [0..<16]. hexValue (hexDigit k) = Some k"
    by (simp add: upt_rec hexDigit_def hexValue_def isDigit_def)
  then show "k < 16 \<Longrightarrow> hexValue (hexDigit k) = Some k"
    by simp
qed

lemma hex4_control:
  assumes "n < 32"
  shows "hex4 (CHR ''0'') (CHR ''0'') (hexDigit (n div 16)) (hexDigit (n mod 16)) = Some n"
proof -
  have z: "hexValue (CHR ''0'') = Some 0"
    by (simp add: hexValue_def isDigit_def)
  have "n div 16 < 16" "n mod 16 < 16"
    using assms by simp_all
  then have "hexValue (hexDigit (n div 16)) = Some (n div 16)"
    "hexValue (hexDigit (n mod 16)) = Some (n mod 16)"
    by (simp_all add: hexValue_hexDigit)
  then show ?thesis
    by (simp add: hex4_def z)
qed

lemma parse_chars_quoteChar: "parse_chars (quoteChar c @ X) = consChar c (parse_chars X)"
proof -
  consider (bs) "c = CHR 0x08" | (tab) "c = CHR 0x09" | (lf) "c = CHR 0x0A" | (ff) "c = CHR 0x0C"
    | (cr) "c = CHR 0x0D" | (quote) "c = CHR 0x22" | (backslash) "c = CHR 0x5C"
    | (control) "c \<notin> set [CHR 0x08, CHR 0x09, CHR 0x0A, CHR 0x0C, CHR 0x0D, CHR 0x22, CHR 0x5C]"
        "(of_char c :: nat) < 32"
    | (plain) "c \<notin> set [CHR 0x08, CHR 0x09, CHR 0x0A, CHR 0x0C, CHR 0x0D, CHR 0x22, CHR 0x5C]"
        "\<not> (of_char c :: nat) < 32"
    by auto
  then show ?thesis
  proof cases
    case control
    have "(of_char c :: nat) < 256"
      using control(2) by simp
    then show ?thesis
      using control hex4_control [OF control(2)]
      by (simp add: quoteChar_def)
  next
    case plain
    then show ?thesis by (simp add: quoteChar_def)
  qed (simp_all add: quoteChar_def unescape_def)
qed

lemma parse_chars_quoted:
  "parse_chars (concat (map quoteChar s) @ CHR 0x22 # rest) = Some (s, rest)"
  by (induction s) (simp_all add: parse_chars_quoteChar consChar_def)

lemma quoteJSONString_append:
  "quoteJSONString s @ rest = CHR 0x22 # concat (map quoteChar s) @ CHR 0x22 # rest"
  by (simp add: quoteJSONString_def)

lemma skip_ws_opening:
  "c \<in> set [CHR 0x22, CHR ''['', CHR '']'', CHR ''{'', CHR ''}'', CHR '','', CHR '':''] \<Longrightarrow>
   skip_ws (c # cs) = c # cs"
  by (auto simp: skip_ws_def isJSONWhiteSpace_def)

lemma stringify_starts:
  "string_tree j \<Longrightarrow>
     \<exists>c cs. JSON_stringify j = c # cs \<and> c \<in> set [CHR 0x22, CHR ''['', CHR ''{'']"
  "xs \<noteq> [] \<Longrightarrow> string_trees xs \<Longrightarrow>
     \<exists>c cs. stringify_elements xs = c # cs \<and> c \<in> set [CHR 0x22, CHR ''['', CHR ''{'']"
  "ms \<noteq> [] \<Longrightarrow> \<exists>cs. stringify_members ms = CHR 0x22 # cs"
proof -
  show j: "\<exists>c cs. JSON_stringify j = c # cs \<and> c \<in> set [CHR 0x22, CHR ''['', CHR ''{'']"
    if "string_tree j" for j
    using that by (cases j) (simp_all add: quoteJSONString_def)
  show "\<exists>c cs. stringify_elements xs = c # cs \<and> c \<in> set [CHR 0x22, CHR ''['', CHR ''{'']"
    if "xs \<noteq> []" "string_trees xs"
  proof -
    from that obtain x xs' where xs: "xs = x # xs'" and "string_tree x"
      by (cases xs) auto
    with j [of x] show ?thesis by auto
  qed
  show "\<exists>cs. stringify_members ms = CHR 0x22 # cs" if "ms \<noteq> []"
  proof -
    from that obtain k x ms' where "ms = (k, x) # ms'"
      by (cases ms) auto
    then show ?thesis by (simp add: quoteJSONString_def)
  qed
qed

lemma parse_value_string:
  "parse_value (Suc n) (quoteJSONString s @ rest) = Some (JString s, rest)"
  by (simp add: quoteJSONString_def skip_ws_opening parse_chars_quoted)

lemma parse_value_array:
  "parse_value (Suc n) (CHR ''['' # cs) =
     (if skip_ws cs \<noteq> [] \<and> hd (skip_ws cs) = CHR '']'' then Some (JArray [], tl (skip_ws cs))
      else map_option (\<lambda>(xs, r). (JArray xs, r)) (parse_elements n cs))"
  by (simp add: skip_ws_opening)

lemma parse_value_object:
  "parse_value (Suc n) (CHR ''{'' # cs) =
     (if skip_ws cs \<noteq> [] \<and> hd (skip_ws cs) = CHR ''}'' then Some (JObject [], tl (skip_ws cs))
      else map_option (\<lambda>(ms, r). (JObject ms, r)) (parse_members n cs))"
  by (simp add: skip_ws_opening)

lemma parse_elements_step:
  "parse_value n s = Some (x, c # r) \<Longrightarrow> c = CHR '','' \<or> c = CHR '']'' \<Longrightarrow>
   parse_elements (Suc n) s =
     (if c = CHR '','' then map_option (\<lambda>(xs, r''). (x # xs, r'')) (parse_elements n r)
      else Some ([x], r))"
  by (auto simp: skip_ws_opening)

lemma parse_members_step:
  "parse_value n s = Some (x, c # r) \<Longrightarrow> c = CHR '','' \<or> c = CHR ''}'' \<Longrightarrow>
   parse_members (Suc n) (quoteJSONString k @ CHR '':'' # s) =
     (if c = CHR '','' then map_option (\<lambda>(ms, r4). ((k, x) # ms, r4)) (parse_members n r)
      else Some ([(k, x)], r))"
  by (auto simp: quoteJSONString_def skip_ws_opening parse_chars_quoted)

declare parse_value.simps(2) [simp del]
declare parse_elements.simps(2) [simp del]
declare parse_members.simps(2) [simp del]

lemma parse_stringify:
  "string_tree j \<Longrightarrow> length (JSON_stringify j) \<le> n \<Longrightarrow>
     parse_value n (JSON_stringify j @ rest) = Some (j, rest)"
  "xs \<noteq> [] \<Longrightarrow> string_trees xs \<Longrightarrow> length (stringify_elements xs) < n \<Longrightarrow>
     parse_elements n (stringify_elements xs @ CHR '']'' # rest) = Some (xs, rest)"
  "ms \<noteq> [] \<Longrightarrow> string_members ms \<Longrightarrow> length (stringify_members ms) < n \<Longrightarrow>
     parse_members n (stringify_members ms @ CHR ''}'' # rest) = Some (ms, rest)"
proof (induction j and xs and ms arbitrary: n rest and n rest and n rest
    rule: JSON_stringify_stringify_elements_stringify_members.induct)
  case 1
  then show ?case by simp
next
  case (2 b)
  then show ?case by simp
next
  case (3 lit)
  then show ?case by simp
next
  case (4 s)
  then obtain m where "n = Suc m"
    by (cases n) (simp_all add: quoteJSONString_def)
  then show ?case
    by (simp add: parse_value_string)
next
  case (5 xs)
  from "5.prems" obtain m where n: "n = Suc m" and m: "length (stringify_elements xs) < m"
    by (cases n) simp_all
  show ?case
  proof (cases "xs = []")
    case True
    then show ?thesis
      by (simp add: n parse_value_array skip_ws_opening)
  next
    case False
    from "5.prems" have trees: "string_trees xs" by simp
    from stringify_starts(2) [OF False trees]
    obtain c cs where st: "stringify_elements xs = c # cs"
      and c: "c \<in> set [CHR 0x22, CHR ''['', CHR ''{'']"
      by blast
    have sk: "skip_ws (stringify_elements xs @ CHR '']'' # rest) = c # cs @ CHR '']'' # rest"
      using c unfolding st by (auto simp: skip_ws_def isJSONWhiteSpace_def)
    have "hd (skip_ws (stringify_elements xs @ CHR '']'' # rest)) \<noteq> CHR '']''"
      using c by (auto simp: sk)
    then show ?thesis
      using "5.IH" [OF False trees m, of rest]
      by (simp add: n parse_value_array)
  qed
next
  case (6 ms)
  from "6.prems" obtain m where n: "n = Suc m" and m: "length (stringify_members ms) < m"
    by (cases n) simp_all
  show ?case
  proof (cases "ms = []")
    case True
    then show ?thesis
      by (simp add: n parse_value_object skip_ws_opening)
  next
    case False
    from "6.prems" have mems: "string_members ms" by simp
    from stringify_starts(3) [OF False]
    obtain cs where st: "stringify_members ms = CHR 0x22 # cs"
      by blast
    have "hd (skip_ws (stringify_members ms @ CHR ''}'' # rest)) \<noteq> CHR ''}''"
      by (simp add: st skip_ws_opening)
    moreover have "skip_ws (stringify_members ms @ CHR ''}'' # rest) \<noteq> []"
      by (simp add: st skip_ws_opening)
    ultimately show ?thesis
      using "6.IH" [OF False mems m, of rest]
      by (simp add: n parse_value_object)
  qed
next
  case 7
  then show ?case by simp
next
  case (8 x xs)
  from "8.prems" obtain m where n: "n = Suc m"
    by (cases n) simp_all
  from "8.prems" have x: "string_tree x" and xs: "string_trees xs"
    by simp_all
  show ?case
  proof (cases "xs = []")
    case True
    then have "length (JSON_stringify x) \<le> m"
      using "8.prems"(3) n by simp
    from "8.IH"(1) [OF True x this, of "CHR '']'' # rest"]
    show ?thesis
      using True by (simp add: n parse_elements_step)
  next
    case False
    have l1: "length (JSON_stringify x) \<le> m" and l2: "length (stringify_elements xs) < m"
      using "8.prems"(3) n False by simp_all
    from "8.IH"(2) [OF False x l1, of "CHR '','' # stringify_elements xs @ CHR '']'' # rest"]
    have "parse_elements (Suc m) (JSON_stringify x @ CHR '','' # stringify_elements xs @ CHR '']'' # rest)
        = map_option (\<lambda>(xs, r''). (x # xs, r''))
            (parse_elements m (stringify_elements xs @ CHR '']'' # rest))"
      by (simp add: parse_elements_step)
    then show ?thesis
      using "8.IH"(3) [OF False False xs l2, of rest] False by (simp add: n)
  qed
next
  case 9
  then show ?case by simp
next
  case (10 k x ms)
  from "10.prems" obtain m where n: "n = Suc m"
    by (cases n) simp_all
  from "10.prems" have x: "string_tree x" and ms: "string_members ms"
    by simp_all
  show ?case
  proof (cases "ms = []")
    case True
    then have "length (JSON_stringify x) \<le> m"
      using "10.prems"(3) n by simp
    from "10.IH"(1) [OF True x this, of "CHR ''}'' # rest"]
    have "parse_members (Suc m) (quoteJSONString k @ CHR '':'' # JSON_stringify x @ CHR ''}'' # rest)
        = Some ([(k, x)], rest)"
      by (simp add: parse_members_step)
    then show ?thesis
      using True by (simp add: n)
  next
    case False
    have l1: "length (JSON_stringify x) \<le> m" and l2: "length (stringify_members ms) < m"
      using "10.prems"(3) n False by simp_all
    from "10.IH"(2) [OF False x l1, of "CHR '','' # stringify_members ms @ CHR ''}'' # rest"]
    have "parse_members (Suc m)
            (quoteJSONString k @ CHR '':'' # JSON_stringify x @ CHR '','' # stringify_members ms
               @ CHR ''}'' # rest)
        = map_option (\<lambda>(ms, r4). ((k, x) # ms, r4))
            (parse_members m (stringify_members ms @ CHR ''}'' # rest))"
      by (simp add: parse_members_step)
    then show ?thesis
      using "10.IH"(3) [OF False False ms l2, of rest] False by (simp add: n)
  qed
qed

lemma JSON_parse_stringify: "string_tree j \<Longrightarrow> JSON_parse (JSON_stringify j) = Some j"
  using parse_stringify(1) [of j "2 * length (JSON_stringify j) + 1" "[]"]
  by (simp add: JSON_parse_def skip_ws_def)

lemma find_distinct_key:
  "distinct (map f xs) \<Longrightarrow> x \<in> set xs \<Longrightarrow> find (\<lambda>y. f y = f x) xs = Some x"
  by (induction xs) (auto simp: image_iff)

lemma PSTransformers_distinct_ID: "distinct (map ID PSTransformers)"
  by (simp add: PSTransformers_def)

lemma decode_records_encoded:
  assumes "\<forall>t\<in>set p. Transformer t \<in> set PSTransformers"
  shows "decode_records
           (map (\<lambda>t. JObject [(''i'', JString (ID (Transformer t))),
                               (''a'', JArray (map JString (Arguments t)))]) p) = Inr p"
  using assms
proof (induction p)
  case Nil
  then show ?case by simp
next
  case (Cons t p)
  let ?r = "JObject [(''i'', JString (ID (Transformer t))),
                    (''a'', JArray (map JString (Arguments t)))]"
  have i: "property ?r ''i'' = Some (JString (ID (Transformer t)))"
    and a: "property ?r ''a'' = Some (JArray (map JString (Arguments t)))"
    by (simp_all add: property_def)
  have strs: "list_all isString (map JString (Arguments t))"
    by (simp add: list_all_iff isString_def)
  have roundtrip_args: "map (stringOf \<circ> JString) (Arguments t) = Arguments t"
    by (simp add: comp_def stringOf_def)
  have found: "find (\<lambda>pst. ID pst = ID (Transformer t)) PSTransformers = Some (Transformer t)"
    using Cons.prems find_distinct_key [OF PSTransformers_distinct_ID, of "Transformer t"]
    by simp
  have rest: "decode_records
           (map (\<lambda>t. JObject [(''i'', JString (ID (Transformer t))),
                               (''a'', JArray (map JString (Arguments t)))]) p) = Inr p"
    using Cons by simp
  show ?case
    by (simp add: decode_records_shaped [OF i a] strs roundtrip_args found rest)
qed

lemma encoded_is_string_tree:
  "string_trees (map (\<lambda>t. JObject [(''i'', JString (ID (Transformer t))),
                               (''a'', JArray (map JString (Arguments t)))]) p)"
proof (induction p)
  case Nil
  then show ?case by simp
next
  case (Cons t p)
  have "string_trees (map JString args)" for args
    by (induction args) simp_all
  with Cons show ?case by simp
qed

text \<open>
  C4: a pipeline whose invocations carry catalog entries is what \<^verbatim>\<open>decodeATL\<close> returns
  for its \<^verbatim>\<open>encodeATL\<close> token.
\<close>

theorem decode_encode_round_trip:
  assumes "\<forall>t\<in>set p. Transformer t \<in> set PSTransformers"
  shows "decodeATL (encodeATL p) = Inr p"
proof -
  let ?ret = "map (\<lambda>t. JObject [(''i'', JString (ID (Transformer t))),
                                (''a'', JArray (map JString (Arguments t)))]) p"
  have "string_tree (JArray ?ret)"
    using encoded_is_string_tree [of p] by simp
  then have "JSON_parse (encodeATL p) = Some (JArray ?ret)"
    unfolding encodeATL_def Let_def by (rule JSON_parse_stringify)
  then show ?thesis
    using decode_records_encoded [OF assms] by (simp add: decodeATL_def)
qed

theorem decode_encode_round_trip_witness:
  "PSTransformers ! 0 \<in> set PSTransformers \<and> PSTransformers ! 2 \<in> set PSTransformers
   \<and> encodeATL [\<lparr>Transformer = PSTransformers ! 0, Arguments = ['','']\<rparr>,
                \<lparr>Transformer = PSTransformers ! 2, Arguments = []\<rparr>]
       = ''[{\"i\":\"split\",\"a\":[\",\"]},{\"i\":\"trim\",\"a\":[]}]''
   \<and> decodeATL ''[{\"i\":\"split\",\"a\":[\",\"]},{\"i\":\"trim\",\"a\":[]}]''
       = Inr [\<lparr>Transformer = PSTransformers ! 0, Arguments = ['','']\<rparr>,
              \<lparr>Transformer = PSTransformers ! 2, Arguments = []\<rparr>]"
proof -
  let ?p = "[\<lparr>Transformer = PSTransformers ! 0, Arguments = ['','']\<rparr>,
             \<lparr>Transformer = PSTransformers ! 2, Arguments = []\<rparr>]"
  have m: "PSTransformers ! 0 \<in> set PSTransformers" "PSTransformers ! 2 \<in> set PSTransformers"
    by (simp_all add: PSTransformers_def)
  then have h: "\<forall>t\<in>set ?p. Transformer t \<in> set PSTransformers"
    by simp
  have e: "encodeATL ?p = ''[{\"i\":\"split\",\"a\":[\",\"]},{\"i\":\"trim\",\"a\":[]}]''"
    by code_simp
  from decode_encode_round_trip [OF h] m e show ?thesis
    by simp
qed

subsection \<open>The parser has fuel enough\<close>

lemma skip_ws_length: "length (skip_ws s) \<le> length s"
  by (simp add: skip_ws_def length_dropWhile_le)

lemma skip_ws_Cons_length: "skip_ws s = c # cs \<Longrightarrow> length cs < length s"
  using skip_ws_length [of s] by simp

lemma parse_chars_shorter: "parse_chars cs = Some (x, r) \<Longrightarrow> length r < length cs"
proof (induction cs arbitrary: x rule: parse_chars.induct)
  case 1
  then show ?case by simp
next
  case (2 c cs)
  show ?case
  proof (cases "c = CHR 0x22")
    case True
    with "2.prems" show ?thesis by simp
  next
    case nq: False
    show ?thesis
    proof (cases "c = CHR 0x5C")
      case True
      from "2.prems" True nq obtain e r0 where cs: "cs = e # r0"
        by (cases cs) auto
      show ?thesis
      proof (cases "e = CHR ''u''")
        case u: True
        from "2.prems" True nq cs u obtain h1 h2 h3 h4 r' n y
          where r0: "r0 = h1 # h2 # h3 # h4 # r'" and h: "hex4 h1 h2 h3 h4 = Some n" "n < 256"
            and p: "parse_chars r' = Some (y, r)"
          by (auto simp: consChar_def split: list.splits option.splits if_splits)
        from "2.IH"(1) [OF nq True cs u r0 refl refl refl h p] show ?thesis
          by (simp add: cs r0)
      next
        case nu: False
        from "2.prems" True nq cs nu obtain d y
          where d: "unescape e = Some d" and p: "parse_chars r0 = Some (y, r)"
          by (auto simp: consChar_def split: option.splits)
        from "2.IH"(2) [OF nq True cs nu d p] show ?thesis
          by (simp add: cs)
      qed
    next
      case nb: False
      from "2.prems" nq nb obtain y where c: "\<not> (of_char c :: nat) < 32"
        and p: "parse_chars cs = Some (y, r)"
        by (auto simp: consChar_def split: if_splits)
      from "2.IH"(3) [OF nq nb c p] show ?thesis by simp
    qed
  qed
qed

lemma parse_digits_shorter: "parse_digits s = Some (ds, r) \<Longrightarrow> length r < length s"
proof -
  assume "parse_digits s = Some (ds, r)"
  then have "takeWhile isDigit s \<noteq> []" and r: "r = dropWhile isDigit s"
    by (auto simp: parse_digits_def split: if_splits)
  then have l: "0 < length (takeWhile isDigit s)" by simp
  have e: "length (takeWhile isDigit s) + length (dropWhile isDigit s) = length s"
    by (metis length_append takeWhile_dropWhile_id)
  show ?thesis unfolding r using l e by linarith
qed

lemma parse_fraction_shorter: "parse_fraction s = Some (fp, r) \<Longrightarrow> length r \<le> length s"
  by (cases s) (auto simp: parse_fraction_def split: if_splits dest!: parse_digits_shorter)

lemma parse_exponent_shorter: "parse_exponent s = Some (ep, r) \<Longrightarrow> length r \<le> length s"
  by (cases s)
    (auto simp: parse_exponent_def split: if_splits list.splits dest!: parse_digits_shorter)

lemma parse_int_part_shorter: "parse_int_part s = Some (ip, r) \<Longrightarrow> length r < length s"
  by (cases s) (auto simp: parse_int_part_def split: if_splits dest!: parse_digits_shorter)

lemma parse_number_shorter: "parse_number s = Some (lit, r) \<Longrightarrow> length r < length s"
proof -
  assume a: "parse_number s = Some (lit, r)"
  let ?s1 = "drop (length (if s \<noteq> [] \<and> hd s = CHR ''-'' then ''-'' else '''')) s"
  from a obtain ip s2 fp s3 ep where
    "parse_int_part ?s1 = Some (ip, s2)" "parse_fraction s2 = Some (fp, s3)"
    "parse_exponent s3 = Some (ep, r)"
    by (auto simp: parse_number_def Let_def split: option.splits)
  then have "length s2 < length ?s1" "length s3 \<le> length s2" "length r \<le> length s3"
    by (auto dest: parse_int_part_shorter parse_fraction_shorter parse_exponent_shorter)
  moreover have "length ?s1 \<le> length s" by simp
  ultimately show ?thesis by linarith
qed

lemma parse_value_shorter_step:
  assumes pe: "\<And>s xs r. parse_elements n s = Some (xs, r) \<Longrightarrow> length r < length s"
    and pm: "\<And>s ms r. parse_members n s = Some (ms, r) \<Longrightarrow> length r < length s"
    and pv: "parse_value (Suc n) s = Some (j, r)"
  shows "length r < length s"
proof -
  from pv obtain c cs where sk: "skip_ws s = c # cs"
    by (cases "skip_ws s") (simp_all add: parse_value.simps(2))
  have len: "length cs < length s"
    by (rule skip_ws_Cons_length [OF sk])
  have tl_len: "length (tl (skip_ws cs)) \<le> length cs"
    using skip_ws_length [of cs] by simp
  have "length r \<le> length cs"
  proof (cases "c = CHR 0x22")
    case True
    with pv sk obtain str where "parse_chars cs = Some (str, r)"
      by (auto simp: parse_value.simps(2))
    then show ?thesis using parse_chars_shorter by fastforce
  next
    case nq: False
    show ?thesis
    proof (cases "c = CHR ''[''")
      case True
      with pv sk nq tl_len pe [of cs] show ?thesis
        by (auto simp: parse_value.simps(2) split: if_splits; fastforce)
    next
      case na: False
      show ?thesis
      proof (cases "c = CHR ''{''")
        case True
        with pv sk nq na tl_len pm [of cs] show ?thesis
          by (auto simp: parse_value.simps(2) split: if_splits; fastforce)
      next
        case no: False
        from pv have body:
          "(if prefix ''true'' (c # cs) then Some (JBool True, drop 4 (c # cs))
            else if prefix ''false'' (c # cs) then Some (JBool False, drop 5 (c # cs))
            else if prefix ''null'' (c # cs) then Some (JNull, drop 4 (c # cs))
            else map_option (\<lambda>(lit, r). (JNumber lit, r)) (parse_number (c # cs))) = Some (j, r)"
          by (simp only: parse_value.simps(2) sk list.case nq na no if_False)
        consider (literal) "r = drop 4 (c # cs) \<or> r = drop 5 (c # cs)"
          | (number) lit where "parse_number (c # cs) = Some (lit, r)"
          using body
          by (cases "prefix ''true'' (c # cs)"; cases "prefix ''false'' (c # cs)";
              cases "prefix ''null'' (c # cs)"; cases "parse_number (c # cs)") auto
        then show ?thesis
        proof cases
          case literal
          then show ?thesis by auto
        next
          case number
          from parse_number_shorter [OF number] show ?thesis by simp
        qed
      qed
    qed
  qed
  with len show ?thesis by simp
qed

lemma parse_elements_shorter_step:
  assumes pv: "\<And>s j r. parse_value n s = Some (j, r) \<Longrightarrow> length r < length s"
    and pe: "\<And>s xs r. parse_elements n s = Some (xs, r) \<Longrightarrow> length r < length s"
    and e: "parse_elements (Suc n) s = Some (xs, r)"
  shows "length r < length s"
proof -
  from e obtain x r0 where v: "parse_value n s = Some (x, r0)"
    by (cases "parse_value n s") (auto simp: parse_elements.simps(2))
  from e v obtain c r' where sk: "skip_ws r0 = c # r'"
    by (cases "skip_ws r0") (auto simp: parse_elements.simps(2))
  have l: "length r' < length s"
    using pv [OF v] skip_ws_Cons_length [OF sk] by simp
  show ?thesis
  proof (cases "c = CHR '',''")
    case True
    with e v sk obtain ys where "parse_elements n r' = Some (ys, r)"
      by (auto simp: parse_elements.simps(2))
    from pe [OF this] l show ?thesis by simp
  next
    case False
    with e v sk have "r = r'"
      by (auto simp: parse_elements.simps(2) split: if_splits)
    with l show ?thesis by simp
  qed
qed

lemma parse_members_shorter_step:
  assumes pv: "\<And>s j r. parse_value n s = Some (j, r) \<Longrightarrow> length r < length s"
    and pm: "\<And>s ms r. parse_members n s = Some (ms, r) \<Longrightarrow> length r < length s"
    and e: "parse_members (Suc n) s = Some (ms, r)"
  shows "length r < length s"
proof -
  from e obtain q cs where sk: "skip_ws s = q # cs" and q: "q = CHR 0x22"
    by (cases "skip_ws s") (auto simp: parse_members.simps(2) split: if_splits)
  from e sk q obtain k r0 where key: "parse_chars cs = Some (k, r0)"
    by (cases "parse_chars cs") (auto simp: parse_members.simps(2))
  from e sk q key obtain colon r1 where sk1: "skip_ws r0 = colon # r1" and colon: "colon = CHR '':''"
    by (cases "skip_ws r0") (auto simp: parse_members.simps(2) split: if_splits)
  from e sk q key sk1 colon obtain x r2 where v: "parse_value n r1 = Some (x, r2)"
    by (cases "parse_value n r1") (auto simp: parse_members.simps(2))
  from e sk q key sk1 colon v obtain c r3 where sk3: "skip_ws r2 = c # r3"
    by (cases "skip_ws r2") (auto simp: parse_members.simps(2))
  have l: "length r3 < length s"
    using skip_ws_Cons_length [OF sk] parse_chars_shorter [OF key] skip_ws_Cons_length [OF sk1]
      pv [OF v] skip_ws_Cons_length [OF sk3]
    by linarith
  show ?thesis
  proof (cases "c = CHR '',''")
    case True
    with e sk q key sk1 colon v sk3 obtain ys where "parse_members n r3 = Some (ys, r)"
      by (auto simp: parse_members.simps(2))
    from pm [OF this] l show ?thesis by simp
  next
    case False
    with e sk q key sk1 colon v sk3 have "r = r3"
      by (auto simp: parse_members.simps(2) split: if_splits)
    with l show ?thesis by simp
  qed
qed

lemma parse_shorter:
  "(\<forall>s j r. parse_value n s = Some (j, r) \<longrightarrow> length r < length s)
   \<and> (\<forall>s xs r. parse_elements n s = Some (xs, r) \<longrightarrow> length r < length s)
   \<and> (\<forall>s ms r. parse_members n s = Some (ms, r) \<longrightarrow> length r < length s)"
proof (induction n)
  case 0
  then show ?case by simp
next
  case (Suc n)
  then show ?case
    using parse_value_shorter_step [of n] parse_elements_shorter_step [of n]
      parse_members_shorter_step [of n]
    by blast
qed

lemma parse_value_fuel_step:
  assumes pe: "\<And>s m. 2 * length s + 1 < n \<Longrightarrow> n \<le> m \<Longrightarrow> parse_elements m s = parse_elements n s"
    and pm: "\<And>s m. 2 * length s + 1 < n \<Longrightarrow> n \<le> m \<Longrightarrow> parse_members m s = parse_members n s"
    and fuel: "2 * length s < Suc n" "Suc n \<le> m"
  shows "parse_value m s = parse_value (Suc n) s"
proof -
  from fuel obtain m' where m: "m = Suc m'" and le: "n \<le> m'"
    by (cases m) simp_all
  show ?thesis
  proof (cases "skip_ws s")
    case Nil
    then show ?thesis
      by (simp only: m parse_value.simps(2) list.case)
  next
    case (Cons c cs)
    have "2 * length cs + 1 < n"
      using skip_ws_Cons_length [OF Cons] fuel(1) by linarith
    then have "parse_elements m' cs = parse_elements n cs" "parse_members m' cs = parse_members n cs"
      by (rule pe [OF _ le], rule pm [OF _ le])
    then show ?thesis
      by (simp only: m parse_value.simps(2) Cons list.case)
  qed
qed


lemma parse_elements_fuel_step:
  assumes pv: "\<And>s m. 2 * length s < n \<Longrightarrow> n \<le> m \<Longrightarrow> parse_value m s = parse_value n s"
    and pe: "\<And>s m. 2 * length s + 1 < n \<Longrightarrow> n \<le> m \<Longrightarrow> parse_elements m s = parse_elements n s"
    and fuel: "2 * length s + 1 < Suc n" "Suc n \<le> m"
  shows "parse_elements m s = parse_elements (Suc n) s"
proof -
  from fuel obtain m' where m: "m = Suc m'" and le: "n \<le> m'"
    by (cases m) simp_all
  have "2 * length s < n"
    using fuel(1) by simp
  then have v: "parse_value m' s = parse_value n s"
    by (rule pv [OF _ le])
  show ?thesis
  proof (cases "parse_value n s")
    case None
    then show ?thesis
      by (simp only: m parse_elements.simps(2) v option.case)
  next
    case (Some xr)
    obtain x r0 where xr: "xr = (x, r0)"
      by (cases xr)
    show ?thesis
    proof (cases "skip_ws r0")
      case Nil
      then show ?thesis
        by (simp only: m parse_elements.simps(2) v Some xr option.case prod.case list.case)
    next
      case (Cons c r')
      have "length r0 < length s"
        using parse_shorter [of n] Some xr by blast
      then have "2 * length r' + 1 < n"
        using skip_ws_Cons_length [OF Cons] fuel(1) by linarith
      then have "parse_elements m' r' = parse_elements n r'"
        by (rule pe [OF _ le])
      then show ?thesis
        by (simp only: m parse_elements.simps(2) v Some xr option.case prod.case Cons list.case)
    qed
  qed
qed


lemma parse_members_fuel_step:
  assumes pv: "\<And>s m. 2 * length s < n \<Longrightarrow> n \<le> m \<Longrightarrow> parse_value m s = parse_value n s"
    and pm: "\<And>s m. 2 * length s + 1 < n \<Longrightarrow> n \<le> m \<Longrightarrow> parse_members m s = parse_members n s"
    and fuel: "2 * length s + 1 < Suc n" "Suc n \<le> m"
  shows "parse_members m s = parse_members (Suc n) s"
proof -
  from fuel obtain m' where m: "m = Suc m'" and le: "n \<le> m'"
    by (cases m) simp_all
  show ?thesis
  proof (cases "skip_ws s")
    case Nil
    then show ?thesis
      by (simp only: m parse_members.simps(2) list.case)
  next
    case sk: (Cons q cs)
    show ?thesis
    proof (cases "parse_chars cs")
      case None
      then show ?thesis
        by (simp only: m parse_members.simps(2) sk list.case option.case)
    next
      case (Some kr)
      obtain k r0 where kr: "kr = (k, r0)"
        by (cases kr)
      have l0: "length r0 < length s"
        using skip_ws_Cons_length [OF sk] parse_chars_shorter [of cs k r0] Some kr by simp
      show ?thesis
      proof (cases "skip_ws r0")
        case Nil
        then show ?thesis
          by (simp only: m parse_members.simps(2) sk list.case Some kr option.case prod.case)
      next
        case sk1: (Cons colon r1)
        have l1: "length r1 < length r0"
          by (rule skip_ws_Cons_length [OF sk1])
        have "2 * length r1 < n"
          using l0 l1 fuel(1) by linarith
        then have v: "parse_value m' r1 = parse_value n r1"
          by (rule pv [OF _ le])
        show ?thesis
        proof (cases "parse_value n r1")
          case None
          then show ?thesis
            by (simp only: m parse_members.simps(2) sk list.case Some kr option.case prod.case
                sk1 v)
        next
          case vs: (Some xr)
          obtain x r2 where xr: "xr = (x, r2)"
            by (cases xr)
          have l2: "length r2 < length r1"
            using parse_shorter [of n] vs xr by blast
          show ?thesis
          proof (cases "skip_ws r2")
            case Nil
            then show ?thesis
              by (simp only: m parse_members.simps(2) sk list.case Some kr option.case prod.case
                  sk1 v vs xr)
          next
            case sk3: (Cons c r3)
            have "2 * length r3 + 1 < n"
              using skip_ws_Cons_length [OF sk3] l0 l1 l2 fuel(1) by linarith
            then have "parse_members m' r3 = parse_members n r3"
              by (rule pm [OF _ le])
            then show ?thesis
              by (simp only: m parse_members.simps(2) sk list.case Some kr option.case prod.case
                  sk1 v vs xr sk3)
          qed
        qed
      qed
    qed
  qed
qed


lemma parse_fuel:
  "(\<forall>s m. 2 * length s < n \<and> n \<le> m \<longrightarrow> parse_value m s = parse_value n s)
   \<and> (\<forall>s m. 2 * length s + 1 < n \<and> n \<le> m \<longrightarrow> parse_elements m s = parse_elements n s)
   \<and> (\<forall>s m. 2 * length s + 1 < n \<and> n \<le> m \<longrightarrow> parse_members m s = parse_members n s)"
proof (induction n)
  case 0
  show ?case
    by (intro conjI allI impI) simp_all
next
  case (Suc n)
  note value_IH = Suc [THEN conjunct1, rule_format, OF conjI]
  note elements_IH = Suc [THEN conjunct2, THEN conjunct1, rule_format, OF conjI]
  note members_IH = Suc [THEN conjunct2, THEN conjunct2, rule_format, OF conjI]
  show ?case
  proof (intro conjI allI impI)
    fix s :: string and m :: nat
    assume "2 * length s < Suc n \<and> Suc n \<le> m"
    then have "2 * length s < Suc n" "Suc n \<le> m"
      by (rule conjunct1, rule conjunct2)
    then show "parse_value m s = parse_value (Suc n) s"
      apply (rule parse_value_fuel_step [rotated 2])
      subgoal for s m by (rule elements_IH)
      subgoal for s m by (rule members_IH)
      done
  next
    fix s :: string and m :: nat
    assume "2 * length s + 1 < Suc n \<and> Suc n \<le> m"
    then have "2 * length s + 1 < Suc n" "Suc n \<le> m"
      by (rule conjunct1, rule conjunct2)
    then show "parse_elements m s = parse_elements (Suc n) s"
      apply (rule parse_elements_fuel_step [rotated 2])
      subgoal for s m by (rule value_IH)
      subgoal for s m by (rule elements_IH)
      done
  next
    fix s :: string and m :: nat
    assume "2 * length s + 1 < Suc n \<and> Suc n \<le> m"
    then have "2 * length s + 1 < Suc n" "Suc n \<le> m"
      by (rule conjunct1, rule conjunct2)
    then show "parse_members m s = parse_members (Suc n) s"
      apply (rule parse_members_fuel_step [rotated 2])
      subgoal for s m by (rule value_IH)
      subgoal for s m by (rule members_IH)
      done
  qed
qed

lemma JSON_parse_any_fuel:
  assumes "2 * length text < n"
  shows "JSON_parse text =
     (case parse_value n text of
        None \<Rightarrow> None
      | Some (j, rest) \<Rightarrow> if skip_ws rest = [] then Some j else None)"
proof -
  have "2 * length text < 2 * length text + 1 \<and> 2 * length text + 1 \<le> n"
    using assms by simp
  then have "parse_value n text = parse_value (2 * length text + 1) text"
    by (rule parse_fuel [of "2 * length text + 1", THEN conjunct1, rule_format])
  then show ?thesis
    by (simp add: JSON_parse_def)
qed

end
